theory Spec2Isabelle
  imports Main "HOL-Library.Word"
begin

unbundle bit_operations_syntax

section \<open>MatFile: a streaming writer of MATLAB level-5 MAT files\<close>

text \<open>
  A shallow embedding of \<^verbatim>\<open>MatFile.h\<close>: the trait templates that classify an element type,
  the nested class \<^verbatim>\<open>MatFile::Variable<T>\<close> that owns one stdio stream and patches three
  counters after every element, and the class \<^verbatim>\<open>MatFile\<close> that maps names to handles.
\<close>

subsection \<open>The C++ implementation: data model and element types\<close>

text \<open>
  The header hard-codes the patch offsets \<^verbatim>\<open>0x84\<close> and \<^verbatim>\<open>0xA4\<close>, which presuppose a 4-byte
  \<^verbatim>\<open>int\<close>. The data models with a 4-byte \<^verbatim>\<open>int\<close> differ in the width of \<^verbatim>\<open>long\<close> and of
  \<^verbatim>\<open>size_t\<close>; integers are stored in little-endian byte order.
\<close>

datatype platform = ILP32 | LLP64 | LP64

text \<open>
  The template argument \<^verbatim>\<open>T\<close>. The first twelve types are those for which the header
  specialises a trait; \<^verbatim>\<open>signed char\<close> and \<^verbatim>\<open>bool\<close> stand for the types it does not know.
\<close>

datatype ctype =
    CChar | CUChar | CShort | CUShort | CInt | CUInt | CLong | CULong
  | CLongLong | CULongLong | CFloat | CDouble | CSChar | CBool

fun sizeof :: "platform \<Rightarrow> ctype \<Rightarrow> nat" where
  "sizeof p CChar = 1"
| "sizeof p CUChar = 1"
| "sizeof p CSChar = 1"
| "sizeof p CBool = 1"
| "sizeof p CShort = 2"
| "sizeof p CUShort = 2"
| "sizeof p CInt = 4"
| "sizeof p CUInt = 4"
| "sizeof p CLong = (case p of LP64 \<Rightarrow> 8 | _ \<Rightarrow> 4)"
| "sizeof p CULong = (case p of LP64 \<Rightarrow> 8 | _ \<Rightarrow> 4)"
| "sizeof p CLongLong = 8"
| "sizeof p CULongLong = 8"
| "sizeof p CFloat = 4"
| "sizeof p CDouble = 8"

definition sizeof_size_t :: "platform \<Rightarrow> nat" where
  "sizeof_size_t p = (case p of ILP32 \<Rightarrow> 4 | _ \<Rightarrow> 8)"

text \<open>Arithmetic on \<^verbatim>\<open>size_t\<close> wraps at \<open>SIZE_MAX + 1\<close>; \<^verbatim>\<open>ftell\<close> cannot report more than \<open>LONG_MAX\<close>.\<close>

definition SIZE_MOD :: "platform \<Rightarrow> nat" where
  "SIZE_MOD p = 2 ^ (8 * sizeof_size_t p)"

definition LONG_MAX :: "platform \<Rightarrow> nat" where
  "LONG_MAX p = 2 ^ (8 * sizeof p CLong - 1) - 1"

subsection \<open>MAT-file constants\<close>

definition miINT8 :: nat where "miINT8 = 1"
definition miUINT8 :: nat where "miUINT8 = 2"
definition miINT16 :: nat where "miINT16 = 3"
definition miUINT16 :: nat where "miUINT16 = 4"
definition miINT32 :: nat where "miINT32 = 5"
definition miUINT32 :: nat where "miUINT32 = 6"
definition miSINGLE :: nat where "miSINGLE = 7"
definition miDOUBLE :: nat where "miDOUBLE = 9"
definition miINT64 :: nat where "miINT64 = 12"
definition miUINT64 :: nat where "miUINT64 = 13"
definition miMATRIX :: nat where "miMATRIX = 14"

definition ARRAY_FLAGS_SIZE :: nat where "ARRAY_FLAGS_SIZE = 16"
definition DIM_ARRAY_SIZE :: nat where "DIM_ARRAY_SIZE = 16"
definition ARRAY_NAME_TAG_SIZE :: nat where "ARRAY_NAME_TAG_SIZE = 8"
definition RE_TAG_SIZE :: nat where "RE_TAG_SIZE = 8"

lemmas mi_defs =
  miINT8_def miUINT8_def miINT16_def miUINT16_def miINT32_def miUINT32_def
  miSINGLE_def miDOUBLE_def miINT64_def miUINT64_def miMATRIX_def

lemmas size_defs =
  ARRAY_FLAGS_SIZE_def DIM_ARRAY_SIZE_def ARRAY_NAME_TAG_SIZE_def RE_TAG_SIZE_def

text \<open>The table from MAT-file data type to array class.\<close>

definition mi2mx :: "nat list" where
  "mi2mx = [0, 8, 9, 10,
            11, 12, 13, 7,
            0, 6, 0, 0,
            14, 15, 0, 0]"

subsection \<open>The trait templates\<close>

text \<open>
  Each trait is \<^verbatim>\<open>false\<close> in its primary template and is specialised for the types listed,
  with the value of a \<^verbatim>\<open>sizeof\<close> comparison.
\<close>

definition is_double :: "platform \<Rightarrow> ctype \<Rightarrow> bool" where
  "is_double p T = (T = CDouble)"

definition is_float :: "platform \<Rightarrow> ctype \<Rightarrow> bool" where
  "is_float p T = (T = CFloat)"

definition is_int8 :: "platform \<Rightarrow> ctype \<Rightarrow> bool" where
  "is_int8 p T = (T = CChar \<and> sizeof p CChar = 1)"

definition is_int16 :: "platform \<Rightarrow> ctype \<Rightarrow> bool" where
  "is_int16 p T = ((T = CInt \<and> sizeof p CInt = 2) \<or> (T = CShort \<and> sizeof p CShort = 2))"

definition is_int32 :: "platform \<Rightarrow> ctype \<Rightarrow> bool" where
  "is_int32 p T = ((T = CInt \<and> sizeof p CInt = 4) \<or> (T = CLong \<and> sizeof p CLong = 4))"

definition is_int64 :: "platform \<Rightarrow> ctype \<Rightarrow> bool" where
  "is_int64 p T = ((T = CInt \<and> sizeof p CInt = 8) \<or> (T = CLong \<and> sizeof p CLong = 8)
                   \<or> (T = CLongLong \<and> sizeof p CLongLong = 8))"

definition is_uint8 :: "platform \<Rightarrow> ctype \<Rightarrow> bool" where
  "is_uint8 p T = (T = CUChar \<and> sizeof p CUChar = 1)"

definition is_uint16 :: "platform \<Rightarrow> ctype \<Rightarrow> bool" where
  "is_uint16 p T = ((T = CUInt \<and> sizeof p CUInt = 2) \<or> (T = CUShort \<and> sizeof p CUShort = 2))"

definition is_uint32 :: "platform \<Rightarrow> ctype \<Rightarrow> bool" where
  "is_uint32 p T = ((T = CUInt \<and> sizeof p CUInt = 4) \<or> (T = CULong \<and> sizeof p CULong = 4))"

definition is_uint64 :: "platform \<Rightarrow> ctype \<Rightarrow> bool" where
  "is_uint64 p T = ((T = CUInt \<and> sizeof p CUInt = 8) \<or> (T = CULong \<and> sizeof p CULong = 8)
                    \<or> (T = CULongLong \<and> sizeof p CULongLong = 8))"

lemmas trait_defs =
  is_double_def is_float_def is_int8_def is_int16_def is_int32_def is_int64_def
  is_uint8_def is_uint16_def is_uint32_def is_uint64_def

text \<open>The ten element kinds are the ten traits.\<close>

datatype kind =
    KDouble | KFloat | KInt64 | KUInt64 | KInt32 | KUInt32 | KInt16 | KUInt16 | KInt8 | KUInt8

fun has_kind :: "platform \<Rightarrow> kind \<Rightarrow> ctype \<Rightarrow> bool" where
  "has_kind p KDouble T = is_double p T"
| "has_kind p KFloat T = is_float p T"
| "has_kind p KInt64 T = is_int64 p T"
| "has_kind p KUInt64 T = is_uint64 p T"
| "has_kind p KInt32 T = is_int32 p T"
| "has_kind p KUInt32 T = is_uint32 p T"
| "has_kind p KInt16 T = is_int16 p T"
| "has_kind p KUInt16 T = is_uint16 p T"
| "has_kind p KInt8 T = is_int8 p T"
| "has_kind p KUInt8 T = is_uint8 p T"

text \<open>
  The chain of tests in \<^verbatim>\<open>write_meta_data\<close> that picks \<^verbatim>\<open>miType\<close>; \<open>None\<close> is the final
  \<^verbatim>\<open>else return false\<close>.
\<close>

definition miType_of :: "platform \<Rightarrow> ctype \<Rightarrow> nat option" where
  "miType_of p T =
     (if is_double p T then Some miDOUBLE
      else if is_float p T then Some miSINGLE
      else if is_int64 p T then Some miINT64
      else if is_uint64 p T then Some miUINT64
      else if is_int32 p T then Some miINT32
      else if is_uint32 p T then Some miUINT32
      else if is_int16 p T then Some miINT16
      else if is_uint16 p T then Some miUINT16
      else if is_int8 p T then Some miINT8
      else if is_uint8 p T then Some miUINT8
      else None)"

text \<open>
  The pair that ends up in the file: \<^verbatim>\<open>miType\<close> in the real-part tag and \<^verbatim>\<open>mi2mx[miType]\<close>
  in the array flags.
\<close>

definition resolve :: "platform \<Rightarrow> ctype \<Rightarrow> (nat \<times> nat) option" where
  "resolve p T = (case miType_of p T of None \<Rightarrow> None | Some t \<Rightarrow> Some (t, mi2mx ! t))"

subsection \<open>Bytes and object representations\<close>

type_synonym byte = "8 word"

text \<open>The \<open>n\<close> low-order bytes of a number, least significant first, and their value.\<close>

fun le_bytes :: "nat \<Rightarrow> nat \<Rightarrow> byte list" where
  "le_bytes 0 v = []"
| "le_bytes (Suc n) v = of_nat (v mod 256) # le_bytes n (v div 256)"

fun le_val :: "byte list \<Rightarrow> nat" where
  "le_val [] = 0"
| "le_val (b # bs) = unat b + 256 * le_val bs"

definition short_bytes :: "16 word \<Rightarrow> byte list" where
  "short_bytes x = le_bytes 2 (unat x)"

definition int_bytes :: "32 word \<Rightarrow> byte list" where
  "int_bytes x = le_bytes 4 (unat x)"

definition size_t_bytes :: "platform \<Rightarrow> nat \<Rightarrow> byte list" where
  "size_t_bytes p x = le_bytes (sizeof_size_t p) x"

definition string_bytes :: "string \<Rightarrow> byte list" where
  "string_bytes s = map (\<lambda>c. of_nat (of_char c)) s"

text \<open>
  A value handed to \<^verbatim>\<open>write\<close>: its static type and its object representation, read as a
  little-endian number. \<^verbatim>\<open>fwrite(&element, sizeof(T), 1, _fp)\<close> copies exactly these bytes,
  so floating-point values need no arithmetic.
\<close>

datatype cvalue = CValue ctype nat

fun type_of :: "cvalue \<Rightarrow> ctype" where
  "type_of (CValue T r) = T"

fun repr :: "cvalue \<Rightarrow> nat" where
  "repr (CValue T r) = r"

subsection \<open>The environment and stdio streams\<close>

text \<open>
  What the code asks of its surroundings: whether a directory exists (\<^verbatim>\<open>stat\<close>), whether
  \<^verbatim>\<open>fopen(path, "wb")\<close> succeeds, the text \<^verbatim>\<open>std::ctime\<close> returns, and whether \<^verbatim>\<open>_WIN32\<close> is
  defined. A stream that opens comes with the outcomes of its future calls: each
  \<^verbatim>\<open>fwrite\<close>, \<^verbatim>\<open>fseek\<close> and \<^verbatim>\<open>ftell\<close> consumes one entry; \<open>None\<close> (and the exhausted list)
  lets the call succeed, \<open>Some k\<close> makes a seek or tell fail and stops a write after
  \<open>k\<close> bytes.
\<close>

record FILE =
  content :: "byte list"
  pos :: nat
  faults :: "nat option list"

record world =
  dir_exists :: "string \<Rightarrow> bool"
  openable :: "string \<Rightarrow> nat option list option"
  ctime_now :: string
  win32 :: bool

definition separator :: "world \<Rightarrow> char" where
  "separator w = (if win32 w then CHR 0x5C else CHR ''/'')"

definition fopen_wb :: "world \<Rightarrow> string \<Rightarrow> FILE option" where
  "fopen_wb w path =
     (case openable w path of
        None \<Rightarrow> None
      | Some fs \<Rightarrow> Some \<lparr>content = [], pos = 0, faults = fs\<rparr>)"

definition next_fault :: "FILE \<Rightarrow> nat option \<times> FILE" where
  "next_fault f = (case faults f of [] \<Rightarrow> (None, f) | x # xs \<Rightarrow> (x, f\<lparr>faults := xs\<rparr>))"

text \<open>Storing bytes at an offset: overwrites what is there, extends the file at its end.\<close>

definition poke :: "byte list \<Rightarrow> nat \<Rightarrow> byte list \<Rightarrow> byte list" where
  "poke cs at bs =
     (if bs = [] then cs
      else take at cs @ replicate (at - length cs) 0 @ bs @ drop (at + length bs) cs)"

definition peek :: "byte list \<Rightarrow> nat \<Rightarrow> nat \<Rightarrow> byte list" where
  "peek cs at n = take n (drop at cs)"

text \<open>
  \<^verbatim>\<open>fwrite(buf, sz, n, f)\<close> returns the number of whole items written; \<open>buf\<close> holds at
  least \<open>sz * n\<close> bytes.
\<close>

definition fwrite :: "byte list \<Rightarrow> nat \<Rightarrow> nat \<Rightarrow> FILE \<Rightarrow> nat \<times> FILE" where
  "fwrite buf sz n f =
     (let (lim, f') = next_fault f;
          want = sz * n;
          got = (case lim of None \<Rightarrow> want | Some k \<Rightarrow> min k want)
      in (if sz = 0 then 0 else got div sz,
          f'\<lparr>content := poke (content f) (pos f) (take got buf), pos := pos f + got\<rparr>))"

text \<open>\<^verbatim>\<open>ftell\<close> returns \<open>-1\<close> on failure, also when the position does not fit a \<^verbatim>\<open>long\<close>.\<close>

definition ftell :: "platform \<Rightarrow> FILE \<Rightarrow> int \<times> FILE" where
  "ftell p f =
     (let (lim, f') = next_fault f
      in (if lim \<noteq> None \<or> LONG_MAX p < pos f then -1 else int (pos f), f'))"

text \<open>\<^verbatim>\<open>fseek(f, off, SEEK_SET)\<close> returns non-zero on failure, also for a negative offset.\<close>

definition fseek :: "FILE \<Rightarrow> int \<Rightarrow> int \<times> FILE" where
  "fseek f off =
     (let (lim, f') = next_fault f
      in if lim \<noteq> None \<or> off < 0 then (-1, f') else (0, f'\<lparr>pos := nat off\<rparr>))"

text \<open>
  The idiom \<^verbatim>\<open>if (call fails) return false;\<close> of the source: \<open>put\<close> is
  \<^verbatim>\<open>fwrite(...) == n\<close>, \<open>seek\<close> is \<^verbatim>\<open>fseek(...) == 0\<close>, and \<open>and_then\<close> runs the rest only
  after a success.
\<close>

definition put :: "byte list \<Rightarrow> nat \<Rightarrow> nat \<Rightarrow> FILE \<Rightarrow> bool \<times> FILE" where
  "put buf sz n f = (let (k, f') = fwrite buf sz n f in (k = n, f'))"

definition seek :: "int \<Rightarrow> FILE \<Rightarrow> bool \<times> FILE" where
  "seek off f = (let (r, f') = fseek f off in (r = 0, f'))"

definition and_then :: "bool \<times> FILE \<Rightarrow> (FILE \<Rightarrow> bool \<times> FILE) \<Rightarrow> bool \<times> FILE" where
  "and_then r k = (if fst r then k (snd r) else (False, snd r))"

text \<open>
  Undefined behaviour is a result of its own: a stdio call on a null stream, and a member
  call through a null object pointer.
\<close>

datatype ub = NullStream | NullObject

subsection \<open>The class \<^verbatim>\<open>MatFile::Variable<T>\<close>\<close>

record Variable =
  vtype :: ctype
  count :: nat
  dim_tag_offset :: "32 word"
  fp :: "FILE option"
  mat_tag_offset :: "32 word"
  mat_tag_size :: nat
  name :: string
  re_tag_offset :: "32 word"

text \<open>
  \<^verbatim>\<open>write_header\<close>: the three \<^verbatim>\<open>fwrite\<close> calls are all made, and their results added. The
  first of them is undefined on a null stream.
\<close>

definition write_header :: "world \<Rightarrow> Variable \<Rightarrow> ub + (bool \<times> Variable)" where
  "write_header w v =
     (case fp v of
        None \<Rightarrow> Inl NullStream
      | Some f \<Rightarrow> Inr (
          let HEADER_SIZE = 124;
              header_s = ''Name: '' @ name v @ [CHR 0x0A] @ ''Format: MATLAB 5.0 MAT file''
                         @ [CHR 0x0A] @ ''Created: '' @ ctime_now w;
              num_bytes = min HEADER_SIZE (length header_s);
              header = take num_bytes (string_bytes header_s)
                       @ replicate (HEADER_SIZE - num_bytes) 0;
              version = (0x0100 :: 16 word);
              endian = (push_bit 8 (of_nat (of_char (CHR ''M''))) OR of_nat (of_char (CHR ''I''))
                        :: 16 word);
              (n1, f1) = fwrite header 1 HEADER_SIZE f;
              (n2, f2) = fwrite (short_bytes version) 2 1 f1;
              (n3, f3) = fwrite (short_bytes endian) 2 1 f2
          in (n1 + n2 + n3 = 126, v\<lparr>fp := Some f3\<rparr>)))"

text \<open>
  \<^verbatim>\<open>write_meta_data\<close>. \<^verbatim>\<open>int bytes\<close> and the \<^verbatim>\<open>int dword[4]\<close> are 32-bit words; the
  conversion of \<^verbatim>\<open>bytes\<close> to the \<^verbatim>\<open>size_t\<close> member \<^verbatim>\<open>_mat_tag_size\<close> extends its sign.
  \<^verbatim>\<open>arrayFlags\<close> is an array of eight \<^verbatim>\<open>int\<close> of which the first eight bytes are written.
\<close>

definition write_meta_data :: "platform \<Rightarrow> Variable \<Rightarrow> ub + (bool \<times> Variable)" where
  "write_meta_data p v =
     (case fp v of
        None \<Rightarrow> Inl NullStream
      | Some f \<Rightarrow> Inr (
          let nsize = length (name v);
              bytes = (word_of_nat (ARRAY_FLAGS_SIZE + DIM_ARRAY_SIZE + ARRAY_NAME_TAG_SIZE
                                    + nsize + RE_TAG_SIZE) :: 32 word);
              bytes = (if nsize mod 8 \<noteq> 0 then bytes + word_of_nat (8 - nsize mod 8) else bytes);
              v = v\<lparr>mat_tag_size := nat (sint bytes mod int (SIZE_MOD p))\<rparr>;
              dword = [word_of_nat miMATRIX, bytes, word_of_nat miUINT32, 8];
              (ok, f) = put (concat (map int_bytes dword)) 4 4 f
          in if \<not> ok then (False, v\<lparr>fp := Some f\<rparr>)
             else case miType_of p (vtype v) of
               None \<Rightarrow> (False, v\<lparr>fp := Some f\<rparr>)
             | Some miType \<Rightarrow>
                 let arrayFlags = [word_of_nat (mi2mx ! miType), 0, 0, 0, 0, 0, 0, 0];
                     dword2 = dword[0 := word_of_nat miINT32, 1 := 8, 2 := 1, 3 := 0];
                     dword3 = dword2[0 := word_of_nat miINT8, 1 := word_of_nat nsize];
                     rem = nsize mod 8;
                     dword4 = dword3[0 := word_of_nat miType, 1 := 0];
                     (ok, f) =
                       and_then (put (concat (map int_bytes arrayFlags)) 1 8 f) (\<lambda>f.
                       and_then (put (concat (map int_bytes dword2)) 4 4 f) (\<lambda>f.
                       and_then (put (concat (map int_bytes dword3)) 4 2 f) (\<lambda>f.
                       and_then (put (string_bytes (name v)) 1 nsize f) (\<lambda>f.
                       and_then (if rem \<noteq> 0 then put (replicate 8 0) 1 (8 - rem) f
                                 else (True, f)) (\<lambda>f.
                       put (concat (map int_bytes dword4)) 4 2 f)))))
                 in if \<not> ok then (False, v\<lparr>fp := Some f\<rparr>)
                    else let (r, f) = ftell p f;
                             re = (word_of_int r :: 32 word)
                         in if re = -1 then (False, v\<lparr>re_tag_offset := re, fp := Some f\<rparr>)
                            else (True, v\<lparr>re_tag_offset := re - 4, fp := Some f\<rparr>)))"

text \<open>
  \<^verbatim>\<open>update_counters\<close>: the three patches, each \<^verbatim>\<open>sizeof(size_t)\<close> bytes long, and the
  padding after the payload.
\<close>

definition update_counters :: "platform \<Rightarrow> Variable \<Rightarrow> ub + (bool \<times> Variable)" where
  "update_counters p v =
     (case fp v of
        None \<Rightarrow> Inl NullStream
      | Some f \<Rightarrow> Inr (
          let (curr, f) = ftell p f
          in if curr = -1 then (False, v\<lparr>fp := Some f\<rparr>)
             else
               let bytes = (mat_tag_size v + count v * sizeof p (vtype v)) mod SIZE_MOD p;
                   rem = bytes mod 8;
                   bytes = (if rem \<noteq> 0 then (bytes + (8 - rem)) mod SIZE_MOD p else bytes);
                   (ok, f) =
                     and_then (seek (sint (mat_tag_offset v)) f) (\<lambda>f.
                     and_then (put (size_t_bytes p bytes) (sizeof_size_t p) 1 f) (\<lambda>f.
                     and_then (seek (sint (dim_tag_offset v)) f) (\<lambda>f.
                     and_then (put (size_t_bytes p (count v)) (sizeof_size_t p) 1 f) (\<lambda>f.
                     let bytes = (count v * sizeof p (vtype v)) mod SIZE_MOD p in
                     and_then (seek (sint (re_tag_offset v)) f) (\<lambda>f.
                     and_then (put (size_t_bytes p bytes) (sizeof_size_t p) 1 f) (\<lambda>f.
                     and_then (seek curr f) (\<lambda>f.
                     if rem \<noteq> 0
                     then and_then (put (replicate 8 0) 1 (8 - rem) f) (\<lambda>f. seek curr f)
                     else (True, f))))))))
               in (ok, v\<lparr>fp := Some f\<rparr>)))"

text \<open>\<^verbatim>\<open>bool write(const T& element)\<close>, given the object representation of the element.\<close>

definition Variable_write :: "platform \<Rightarrow> Variable \<Rightarrow> nat \<Rightarrow> ub + (bool \<times> Variable)" where
  "Variable_write p v element =
     (case fp v of
        None \<Rightarrow> Inr (False, v)
      | Some f \<Rightarrow>
          let (num, f) = fwrite (le_bytes (sizeof p (vtype v)) element) (sizeof p (vtype v)) 1 f;
              v = v\<lparr>count := (count v + num) mod SIZE_MOD p, fp := Some f\<rparr>
          in if num = 1 then update_counters p v else Inr (False, v))"

text \<open>
  The constructor. The result of \<^verbatim>\<open>fopen\<close> is not tested before \<^verbatim>\<open>write_header\<close> uses it.
  \<^verbatim>\<open>_mat_tag_size\<close> and \<^verbatim>\<open>_re_tag_offset\<close> have no initialiser; they are read only by
  \<^verbatim>\<open>update_counters\<close>, which runs only after \<^verbatim>\<open>write_meta_data\<close> has set both.
\<close>

definition fclose_fp :: "Variable \<Rightarrow> ub + Variable" where
  "fclose_fp v = (case fp v of None \<Rightarrow> Inl NullStream | Some f \<Rightarrow> Inr (v\<lparr>fp := None\<rparr>))"

definition Variable_ctor :: "platform \<Rightarrow> world \<Rightarrow> ctype \<Rightarrow> string \<Rightarrow> string \<Rightarrow> ub + Variable" where
  "Variable_ctor p w T path nm =
     (let v = \<lparr>vtype = T, count = 0, dim_tag_offset = 0xA4,
               fp = fopen_wb w (path @ [separator w] @ nm @ ''.mat''),
               mat_tag_offset = 0x84, mat_tag_size = 0, name = nm, re_tag_offset = 0\<rparr>
      in case write_header w v of
           Inl u \<Rightarrow> Inl u
         | Inr (ok, v) \<Rightarrow>
             if \<not> ok then fclose_fp v
             else case write_meta_data p v of
                    Inl u \<Rightarrow> Inl u
                  | Inr (ok, v) \<Rightarrow> if \<not> ok then fclose_fp v else Inr v)"

subsection \<open>The class \<^verbatim>\<open>MatFile\<close>\<close>

datatype mode_t = RealTime

record MatFile =
  dir :: string
  is_ready :: bool
  name2id :: "string \<rightharpoonup> 32 word"
  running_mode :: mode_t
  variables :: "Variable list"

definition MatFile_ctor :: "world \<Rightarrow> mode_t \<Rightarrow> string \<Rightarrow> MatFile" where
  "MatFile_ctor w mode d =
     \<lparr>dir = d, is_ready = dir_exists w d, name2id = Map.empty, running_mode = mode,
      variables = []\<rparr>"

text \<open>\<^verbatim>\<open>create<T>(name)\<close>: the handle is an \<^verbatim>\<open>int\<close>, \<open>-1\<close> when the object is not ready.\<close>

definition create :: "platform \<Rightarrow> world \<Rightarrow> MatFile \<Rightarrow> ctype \<Rightarrow> string \<Rightarrow> ub + (32 word \<times> MatFile)" where
  "create p w m T nm =
     (if \<not> is_ready m then Inr (-1, m)
      else
        let ident = (word_of_nat (length (variables m)) :: 32 word)
        in case name2id m nm of
             Some i \<Rightarrow> Inr (i, m)
           | None \<Rightarrow>
               let m = m\<lparr>name2id := (name2id m)(nm \<mapsto> ident)\<rparr>
               in case Variable_ctor p w T (dir m) nm of
                    Inl u \<Rightarrow> Inl u
                  | Inr v \<Rightarrow> Inr (ident, m\<lparr>variables := variables m @ [v]\<rparr>))"

text \<open>
  \<^verbatim>\<open>write(int id, const T& value)\<close>: the \<^verbatim>\<open>int\<close> is converted to \<^verbatim>\<open>size_t\<close> for the bounds
  check; \<^verbatim>\<open>dynamic_cast\<close> yields a null pointer when the variable is not a \<^verbatim>\<open>Variable<T>\<close>,
  and the result is used without a test.
\<close>

definition write_id :: "platform \<Rightarrow> MatFile \<Rightarrow> 32 word \<Rightarrow> cvalue \<Rightarrow> ub + (bool \<times> MatFile)" where
  "write_id p m i x =
     (if \<not> is_ready m then Inr (False, m)
      else
        let idx = nat (sint i mod int (SIZE_MOD p))
        in if length (variables m) \<le> idx then Inr (False, m)
           else
             let var = variables m ! idx
             in if vtype var \<noteq> type_of x then Inl NullObject
                else case Variable_write p var (repr x) of
                       Inl u \<Rightarrow> Inl u
                     | Inr (ok, var') \<Rightarrow>
                         Inr (ok, m\<lparr>variables := (variables m)[idx := var']\<rparr>))"

text \<open>\<^verbatim>\<open>write(const std::string& name, const T& value)\<close>.\<close>

definition write_name :: "platform \<Rightarrow> MatFile \<Rightarrow> string \<Rightarrow> cvalue \<Rightarrow> ub + (bool \<times> MatFile)" where
  "write_name p m nm x =
     (if \<not> is_ready m then Inr (False, m)
      else case name2id m nm of
             None \<Rightarrow> Inr (False, m)
           | Some i \<Rightarrow> write_id p m i x)"

text \<open>
  The loop of the unit test: write the values in turn and stop at the first failure.
\<close>

fun write_all :: "platform \<Rightarrow> MatFile \<Rightarrow> 32 word \<Rightarrow> cvalue list \<Rightarrow> ub + (bool \<times> MatFile)" where
  "write_all p m i [] = Inr (True, m)"
| "write_all p m i (x # xs) =
     (case write_id p m i x of
        Inl u \<Rightarrow> Inl u
      | Inr (ok, m') \<Rightarrow> if ok then write_all p m' i xs else Inr (False, m'))"

text \<open>The tag that the chain selects for each trait.\<close>

fun kind_miType :: "kind \<Rightarrow> nat" where
  "kind_miType KDouble = miDOUBLE"
| "kind_miType KFloat = miSINGLE"
| "kind_miType KInt64 = miINT64"
| "kind_miType KUInt64 = miUINT64"
| "kind_miType KInt32 = miINT32"
| "kind_miType KUInt32 = miUINT32"
| "kind_miType KInt16 = miINT16"
| "kind_miType KUInt16 = miUINT16"
| "kind_miType KInt8 = miINT8"
| "kind_miType KUInt8 = miUINT8"

subsection \<open>The file layout and the state of a healthy stream\<close>

text \<open>Rounding up to the next multiple of eight, as both padding computations do.\<close>

definition round8 :: "nat \<Rightarrow> nat" where
  "round8 n = (if n mod 8 = 0 then n else n + (8 - n mod 8))"

text \<open>
  The offset of the first payload byte: the 128-byte header, the matrix tag, the array
  flags (tag and data), the dimensions (tag and data), the name (tag and padded data) and
  the tag of the real part.
\<close>

definition payload_start :: "string \<Rightarrow> nat" where
  "payload_start nm = 128 + 8 + (8 + 8) + (8 + 8) + (8 + round8 (length nm)) + 8"

text \<open>The recorded offset of the payload length is an \<^verbatim>\<open>int\<close>.\<close>

definition name_fits :: "string \<Rightarrow> bool" where
  "name_fits nm = (payload_start nm < 2 ^ 31)"

text \<open>The three 4-byte fields, decoded from the bytes of a file.\<close>

definition total_length_field :: "byte list \<Rightarrow> nat" where
  "total_length_field cs = le_val (peek cs 0x84 4)"

definition element_count_field :: "byte list \<Rightarrow> nat" where
  "element_count_field cs = le_val (peek cs 0xA4 4)"

definition payload_length_field :: "string \<Rightarrow> byte list \<Rightarrow> nat" where
  "payload_length_field nm cs = le_val (peek cs (payload_start nm - 4) 4)"

text \<open>
  The state in which the constructor leaves a variable and which every successful write
  restores: the stream is open and positioned at the end of the payload, the file ends at
  the next multiple of eight, and the three fields hold the low 32 bits of the counters.
\<close>

definition stream_ok :: "platform \<Rightarrow> Variable \<Rightarrow> bool" where
  "stream_ok p v =
     (case fp v of
        None \<Rightarrow> False
      | Some f \<Rightarrow>
          mat_tag_offset v = 0x84 \<and> dim_tag_offset v = 0xA4 \<and>
          name_fits (name v) \<and>
          re_tag_offset v = word_of_nat (payload_start (name v) - 4) \<and>
          mat_tag_size v = payload_start (name v) - 136 \<and>
          pos f = payload_start (name v) + count v * sizeof p (vtype v) \<and>
          pos f \<le> LONG_MAX p \<and>
          length (content f) = payload_start (name v) + round8 (count v * sizeof p (vtype v)) \<and>
          total_length_field (content f) =
            (payload_start (name v) - 136 + round8 (count v * sizeof p (vtype v))) mod 2 ^ 32 \<and>
          element_count_field (content f) = count v mod 2 ^ 32 \<and>
          payload_length_field (name v) (content f) =
            (count v * sizeof p (vtype v)) mod 2 ^ 32)"

text \<open>
  The variable that \<^verbatim>\<open>_variables[id]\<close> denotes, and the bytes of its file while the stream is
  open.
\<close>

definition var_at :: "platform \<Rightarrow> MatFile \<Rightarrow> 32 word \<Rightarrow> Variable" where
  "var_at p m i = variables m ! nat (sint i mod int (SIZE_MOD p))"

definition file_bytes :: "platform \<Rightarrow> MatFile \<Rightarrow> 32 word \<Rightarrow> byte list" where
  "file_bytes p m i = (case fp (var_at p m i) of None \<Rightarrow> [] | Some f \<Rightarrow> content f)"

text \<open>The tag of the array-flags subelement, which follows the total-length field.\<close>

definition array_flags_tag :: "byte list \<Rightarrow> nat" where
  "array_flags_tag cs = le_val (peek cs 0x88 4)"

text \<open>A stream positioned at the end of its file appends.\<close>

definition at_end :: "FILE \<Rightarrow> bool" where
  "at_end f = (pos f = length (content f))"

text \<open>The outcome of a call that succeeded on a stream with no fault left, at a known position.\<close>

definition good :: "bool \<times> FILE \<Rightarrow> nat \<Rightarrow> bool" where
  "good r a = (fst r \<and> faults (snd r) = [] \<and> pos (snd r) = a)"

subsection \<open>Properties of the type resolver\<close>

lemma has_kind_miType: "has_kind p k T \<Longrightarrow> miType_of p T = Some (kind_miType k)"
  by (cases p; cases k; cases T; simp add: miType_of_def trait_defs mi_defs)

lemma kind_miType_inj: "kind_miType k = kind_miType k' \<Longrightarrow> k = k'"
  by (cases k; cases k'; simp add: mi_defs)

lemma has_kind_resolve:
  "has_kind p k T \<Longrightarrow> resolve p T = Some (kind_miType k, mi2mx ! kind_miType k)"
  by (simp add: resolve_def has_kind_miType)

text \<open>
  C9. Every type of one of the ten kinds resolves; two types resolve to the same pair of
  type tag and array-class tag exactly when they are of the same kind, so distinct kinds
  never share a pair and one kind always yields one pair. The class tags alone already
  separate the kinds.
\<close>

theorem resolve_injective_on_kinds:
  "has_kind p k T \<and> has_kind p k' T' \<longrightarrow>
     resolve p T \<noteq> None \<and> resolve p T' \<noteq> None \<and>
     ((resolve p T = resolve p T') = (k = k')) \<and>
     ((snd (the (resolve p T)) = snd (the (resolve p T'))) = (k = k'))"
proof (intro impI, elim conjE)
  assume a: "has_kind p k T" and b: "has_kind p k' T'"
  have cls: "(mi2mx ! kind_miType k = mi2mx ! kind_miType k') = (k = k')"
    by (cases k; cases k'; simp add: mi_defs mi2mx_def)
  show "resolve p T \<noteq> None \<and> resolve p T' \<noteq> None \<and>
     ((resolve p T = resolve p T') = (k = k')) \<and>
     ((snd (the (resolve p T)) = snd (the (resolve p T'))) = (k = k'))"
    using cls kind_miType_inj [of k k']
    by (auto simp add: has_kind_resolve [OF a] has_kind_resolve [OF b])
qed

theorem resolve_injective_on_kinds_witness:
  "has_kind LP64 KInt32 CInt \<and> has_kind LP64 KInt64 CLong \<and>
   resolve LP64 CInt = Some (5, 12) \<and> resolve LP64 CLong = Some (12, 14) \<and>
   resolve LP64 CInt \<noteq> resolve LP64 CLong"
  using resolve_injective_on_kinds [of LP64 KInt32 CInt KInt64 CLong]
  by (simp add: resolve_def miType_of_def trait_defs mi_defs mi2mx_def)


subsection \<open>Bytes\<close>

lemma length_le_bytes [simp]: "length (le_bytes n v) = n"
  by (induction n arbitrary: v) auto

lemma take_le_bytes: "take k (le_bytes n v) = le_bytes (min k n) v"
proof (induction n arbitrary: v k)
  case 0
  then show ?case by simp
next
  case (Suc n)
  then show ?case by (cases k) auto
qed

lemma le_val_le_bytes: "le_val (le_bytes n v) = v mod 256 ^ n"
proof (induction n arbitrary: v)
  case 0
  then show ?case by simp
next
  case (Suc n)
  have "unat (of_nat (v mod 256) :: byte) = v mod 256"
    by (simp add: unat_of_nat)
  then show ?case using Suc
    by (simp add: mod_mult2_eq)
qed

lemma poke_length:
  "length (poke cs at bs) = (if bs = [] then length cs else max (length cs) (at + length bs))"
  by (auto simp: poke_def)

lemma poke_end [simp]: "poke cs (length cs) bs = cs @ bs"
  by (simp add: poke_def)

lemma poke_inside:
  "at \<le> length cs \<Longrightarrow> poke cs at bs = take at cs @ bs @ drop (at + length bs) cs"
  by (simp add: poke_def)

lemma peek_poke_same:
  "at \<le> length cs \<Longrightarrow> n \<le> length bs \<Longrightarrow> peek (poke cs at bs) at n = take n bs"
  by (simp add: poke_inside peek_def)

lemma peek_poke_before:
  "a + n \<le> at \<Longrightarrow> at \<le> length cs \<Longrightarrow> peek (poke cs at bs) a n = peek cs a n"
  by (simp add: poke_inside peek_def take_drop min_def)

lemma peek_poke_after:
  "at + length bs \<le> a \<Longrightarrow> at \<le> length cs \<Longrightarrow> peek (poke cs at bs) a n = peek cs a n"
  by (simp add: poke_inside peek_def)

subsection \<open>Arithmetic of the data models\<close>

lemma round8_mod [simp]: "round8 n mod 8 = 0"
  unfolding round8_def by presburger

lemma round8_lt: "round8 n < n + 8"
  unfolding round8_def by presburger

lemma round8_ge: "n \<le> round8 n"
  unfolding round8_def by presburger

lemma round8_pos: "0 < n \<Longrightarrow> 8 \<le> round8 n"
  unfolding round8_def by presburger

lemma mult8_gap:
  assumes "(x::nat) mod 8 = 0" and "y mod 8 = 0" and "x < y"
  shows "x + 8 \<le> y"
proof -
  from assms(1) obtain k where k: "x = 8 * k"
    by (auto simp: mod_eq_0_iff_dvd elim: dvdE)
  from assms(2) obtain l where l: "y = 8 * l"
    by (auto simp: mod_eq_0_iff_dvd elim: dvdE)
  from assms(3) k l have "k < l" by simp
  then have "k + 1 \<le> l" by simp
  then have "8 * (k + 1) \<le> 8 * l" by (rule mult_le_mono2)
  with k l show ?thesis by simp
qed

lemma round8_mono:
  assumes "a \<le> b"
  shows "round8 a \<le> round8 b"
proof (rule ccontr)
  assume "\<not> round8 a \<le> round8 b"
  then have "round8 b + 8 \<le> round8 a"
    by (intro mult8_gap) simp_all
  with round8_lt [of a] round8_ge [of b] assms show False by simp
qed

lemma sizeof_pos [simp]: "0 < sizeof p T"
  by (cases p; cases T) simp_all

lemma sizeof_size_t_cases: "sizeof_size_t p = 4 \<or> sizeof_size_t p = 8"
  by (cases p) (simp_all add: sizeof_size_t_def)

lemma LONG_MAX_lt_SIZE_MOD: "LONG_MAX p + 8 < SIZE_MOD p"
  by (cases p) (simp_all add: LONG_MAX_def SIZE_MOD_def sizeof_size_t_def)

lemma SIZE_MOD_ge: "2 ^ 32 \<le> SIZE_MOD p"
  by (cases p) (simp_all add: SIZE_MOD_def sizeof_size_t_def)

lemma neg_mod_wrap:
  assumes "(x::int) < 0" and "- (2 ^ 31) \<le> x" and "2 ^ 32 \<le> (M::int)"
  shows "x mod M = x + M"
proof -
  have "x mod M = (x + M) mod M" by simp
  also have "\<dots> = x + M" using assms by (intro mod_pos_pos_trivial) auto
  finally show ?thesis .
qed

subsection \<open>The stdio calls\<close>

lemma and_thenE:
  assumes "and_then r k = (True, f')"
  obtains f1 where "r = (True, f1)" and "k f1 = (True, f')"
  using assms by (cases r) (auto simp: and_then_def split: if_splits)

lemma fwrite_le: "fst (fwrite buf sz n f) \<le> n"
proof -
  obtain lim g where nf: "next_fault f = (lim, g)" by (cases "next_fault f")
  define got where "got = (case lim of None \<Rightarrow> sz * n | Some k \<Rightarrow> min k (sz * n))"
  have "got \<le> sz * n" by (auto simp: got_def split: option.splits)
  then have "got div sz \<le> n"
    by (metis div_le_mono div_by_0 nonzero_mult_div_cancel_left zero_le)
  then show ?thesis using nf
    by (simp add: fwrite_def Let_def got_def)
qed

lemma fwrite_full:
  assumes "fwrite buf sz n f = (n, f')" and "0 < sz"
  shows "content f' = poke (content f) (pos f) (take (sz * n) buf) \<and> pos f' = pos f + sz * n"
proof -
  obtain lim g where nf: "next_fault f = (lim, g)" by (cases "next_fault f")
  define got where "got = (case lim of None \<Rightarrow> sz * n | Some k \<Rightarrow> min k (sz * n))"
  have le: "got \<le> sz * n" by (auto simp: got_def split: option.splits)
  from assms nf have d: "got div sz = n"
    and f': "f' = g\<lparr>content := poke (content f) (pos f) (take got buf), pos := pos f + got\<rparr>"
    by (auto simp: fwrite_def Let_def got_def)
  have "n * sz \<le> got" using d div_times_less_eq_dividend [of got sz] by simp
  with le have "got = sz * n" by (simp add: mult.commute)
  with f' show ?thesis by simp
qed

lemma put_True:
  assumes "put buf sz n f = (True, f')" and "0 < sz"
  shows "content f' = poke (content f) (pos f) (take (sz * n) buf) \<and> pos f' = pos f + sz * n"
proof -
  from assms(1) have "fwrite buf sz n f = (n, f')"
    by (cases "fwrite buf sz n f") (simp add: put_def)
  then show ?thesis using assms(2) by (rule fwrite_full)
qed

lemma seek_True:
  "seek off f = (True, f') \<Longrightarrow> 0 \<le> off \<and> content f' = content f \<and> pos f' = nat off"
  by (auto simp: seek_def fseek_def next_fault_def Let_def split: list.splits if_splits)

lemma ftell_ok:
  "ftell p f = (r, f') \<Longrightarrow> r \<noteq> -1 \<Longrightarrow>
     r = int (pos f) \<and> pos f \<le> LONG_MAX p \<and> content f' = content f \<and> pos f' = pos f"
  by (auto simp: ftell_def next_fault_def Let_def split: list.splits if_splits)

text \<open>Without faults every call succeeds.\<close>

lemma put_no_fault:
  "faults f = [] \<Longrightarrow> 0 < sz \<Longrightarrow>
   put buf sz n f =
     (True, f\<lparr>content := poke (content f) (pos f) (take (sz * n) buf), pos := pos f + sz * n\<rparr>)"
  by (simp add: put_def fwrite_def next_fault_def Let_def)

lemma seek_no_fault:
  "faults f = [] \<Longrightarrow> 0 \<le> off \<Longrightarrow> seek off f = (True, f\<lparr>pos := nat off\<rparr>)"
  by (simp add: seek_def fseek_def next_fault_def)

lemma ftell_no_fault:
  "faults f = [] \<Longrightarrow> pos f \<le> LONG_MAX p \<Longrightarrow> ftell p f = (int (pos f), f)"
  by (simp add: ftell_def next_fault_def)

subsection \<open>The constructor\<close>

lemma pair_fst_eq: "fst r = a \<Longrightarrow> r = (a, snd r)"
  by (cases r) simp

lemma poke_at_end: "at = length cs \<Longrightarrow> poke cs at bs = cs @ bs"
  by simp

lemma write_header_shape:
  assumes "fp v = Some f"
  shows "\<exists>ok f'. write_header w v = Inr (ok, v\<lparr>fp := Some f'\<rparr>)"
  unfolding write_header_def assms option.case Let_def case_prod_beta by blast

lemma write_header_True:
  assumes "fp v = Some f" and "content f = []" and "pos f = 0"
    and "write_header w v = Inr (True, v')"
  shows "\<exists>f'. v' = v\<lparr>fp := Some f'\<rparr> \<and> length (content f') = 128 \<and> pos f' = 128"
proof -
  define header_s where "header_s = ''Name: '' @ name v @ [CHR 0x0A] @ ''Format: MATLAB 5.0 MAT file''
                         @ [CHR 0x0A] @ ''Created: '' @ ctime_now w"
  define header where "header = take (min 124 (length header_s)) (string_bytes header_s)
                       @ replicate (124 - min 124 (length header_s)) (0::byte)"
  define endian where "endian = (push_bit 8 (of_nat (of_char (CHR ''M''))) OR of_nat (of_char (CHR ''I'')) :: 16 word)"
  define r1 where "r1 = fwrite header 1 124 f"
  define r2 where "r2 = fwrite (short_bytes 0x0100) 2 1 (snd r1)"
  define r3 where "r3 = fwrite (short_bytes endian) 2 1 (snd r2)"
  have eq: "write_header w v = Inr (fst r1 + fst r2 + fst r3 = 126, v\<lparr>fp := Some (snd r3)\<rparr>)"
    unfolding write_header_def assms(1) option.case Let_def case_prod_beta r1_def r2_def r3_def
      header_def header_s_def endian_def
    by (rule refl)
  with assms(4) have sum: "fst r1 + fst r2 + fst r3 = 126" and v': "v' = v\<lparr>fp := Some (snd r3)\<rparr>"
    by simp_all
  have "fst r1 \<le> 124" "fst r2 \<le> 1" "fst r3 \<le> 1"
    unfolding r1_def r2_def r3_def by (rule fwrite_le)+
  with sum have n: "fst r1 = 124" "fst r2 = 1" "fst r3 = 1" by simp_all
  have lh: "length header = 124"
    by (simp add: header_def string_bytes_def)
  note 1 = n(1) [THEN pair_fst_eq, unfolded r1_def] and 2 = n(2) [THEN pair_fst_eq, unfolded r2_def]
    and 3 = n(3) [THEN pair_fst_eq, unfolded r3_def]
  have a1: "content (snd r1) = header" "pos (snd r1) = 124"
    using fwrite_full [OF 1, folded r1_def] assms(2,3) lh by (simp_all add: poke_def)
  have a2: "length (content (snd r2)) = 126" "pos (snd r2) = 126"
    using fwrite_full [OF 2, folded r2_def] a1 lh by (simp_all add: short_bytes_def poke_at_end)
  have a3: "length (content (snd r3)) = 128" "pos (snd r3) = 128"
    using fwrite_full [OF 3, folded r3_def] a2 by (simp_all add: short_bytes_def poke_at_end)
  with v' show ?thesis by blast
qed

lemma put_append:
  assumes "put buf sz n f = (True, f')" and "0 < sz" and "at_end f" and "sz * n \<le> length buf"
  shows "content f' = content f @ take (sz * n) buf \<and> at_end f'"
  using put_True [OF assms(1,2)] assms(3,4) by (simp add: at_end_def)

lemma length_int_bytes [simp]: "length (int_bytes x) = 4"
  by (simp add: int_bytes_def)

lemma le_val_int_bytes [simp]: "le_val (int_bytes x) = unat x"
proof -
  have "unat x < 2 ^ 32" using unsigned_less [of x] by simp
  then show ?thesis by (simp add: int_bytes_def le_val_le_bytes)
qed

lemma length_string_bytes [simp]: "length (string_bytes s) = length s"
  by (simp add: string_bytes_def)

lemma dword_updates:
  "[a, b, c, d][0 := a', 1 := b', 2 := c', 3 := d'] = [a', b', c', d']"
  "[a, b, c, d][0 := a', 1 := b'] = [a', b', c, d]"
  by (simp_all add: numeral_2_eq_2 numeral_3_eq_3)

lemma unat_of_nat_32: "n < 2 ^ 32 \<Longrightarrow> unat (word_of_nat n :: 32 word) = n"
  by (simp add: unat_of_nat)

lemma sint_of_nat_32: "n < 2 ^ 31 \<Longrightarrow> sint (word_of_nat n :: 32 word) = int n"
  by (simp add: signed_of_nat signed_take_bit_int_eq_self)

lemma payload_start_eq: "payload_start nm = 184 + round8 (length nm)"
  by (simp add: payload_start_def)

lemma write_meta_data_True:
  fixes p :: platform and v :: Variable and f :: FILE
  assumes "fp v = Some f" and "pos f = 128" and "length (content f) = 128"
    and "write_meta_data p v = Inr (True, v')" and "name_fits (name v)"
  shows "\<exists>f'. miType_of p (vtype v) \<noteq> None \<and>
           v' = v\<lparr>mat_tag_size := payload_start (name v) - 136,
                  re_tag_offset := word_of_nat (payload_start (name v) - 4), fp := Some f'\<rparr> \<and>
           pos f' = payload_start (name v) \<and> pos f' \<le> LONG_MAX p \<and>
           length (content f') = payload_start (name v) \<and>
           total_length_field (content f') = payload_start (name v) - 136 \<and>
           element_count_field (content f') = 0 \<and>
           payload_length_field (name v) (content f') = 0 \<and>
           array_flags_tag (content f') = miUINT32"
proof -
  define nsize where "nsize = length (name v)"
  define b0 where "b0 = (word_of_nat (ARRAY_FLAGS_SIZE + DIM_ARRAY_SIZE + ARRAY_NAME_TAG_SIZE
                                    + nsize + RE_TAG_SIZE) :: 32 word)"
  define b where "b = (if nsize mod 8 \<noteq> 0 then b0 + word_of_nat (8 - nsize mod 8) else b0)"
  define v1 where "v1 = v\<lparr>mat_tag_size := nat (sint b mod int (SIZE_MOD p))\<rparr>"
  define dword where "dword = [word_of_nat miMATRIX, b, word_of_nat miUINT32, 8]"
  define r0 where "r0 = put (concat (map int_bytes dword)) 4 4 f"
  define chain where "chain = (\<lambda>miType.
                       and_then (put (concat (map int_bytes [word_of_nat (mi2mx ! miType), 0, 0, 0, 0, 0, 0, 0])) 1 8 (snd r0)) (\<lambda>f.
                       and_then (put (concat (map int_bytes (dword[0 := word_of_nat miINT32, 1 := 8, 2 := 1, 3 := 0]))) 4 4 f) (\<lambda>f.
                       and_then (put (concat (map int_bytes (dword[0 := word_of_nat miINT32, 1 := 8, 2 := 1, 3 := 0, 0 := word_of_nat miINT8, 1 := word_of_nat nsize]))) 4 2 f) (\<lambda>f.
                       and_then (put (string_bytes (name v1)) 1 nsize f) (\<lambda>f.
                       and_then (if nsize mod 8 \<noteq> 0 then put (replicate 8 0) 1 (8 - nsize mod 8) f
                                 else (True, f)) (\<lambda>f.
                       put (concat (map int_bytes (dword[0 := word_of_nat miINT32, 1 := 8, 2 := 1, 3 := 0, 0 := word_of_nat miINT8, 1 := word_of_nat nsize, 0 := word_of_nat miType, 1 := 0]))) 4 2 f))))))"
  define fin where "fin = (\<lambda>miType. ftell p (snd (chain miType)))"
  have eq: "write_meta_data p v = Inr (
           if \<not> fst r0 then (False, v1\<lparr>fp := Some (snd r0)\<rparr>)
           else case miType_of p (vtype v1) of
               None \<Rightarrow> (False, v1\<lparr>fp := Some (snd r0)\<rparr>)
             | Some miType \<Rightarrow>
                 if \<not> fst (chain miType) then (False, v1\<lparr>fp := Some (snd (chain miType))\<rparr>)
                 else if (word_of_int (fst (fin miType)) :: 32 word) = -1
                   then (False, v1\<lparr>re_tag_offset := word_of_int (fst (fin miType)), fp := Some (snd (fin miType))\<rparr>)
                   else (True, v1\<lparr>re_tag_offset := word_of_int (fst (fin miType)) - 4, fp := Some (snd (fin miType))\<rparr>))"
    unfolding write_meta_data_def assms(1) option.case Let_def case_prod_beta
      fin_def chain_def r0_def dword_def v1_def b_def b0_def nsize_def
    by (rule refl)
  from assms(4) [unfolded eq] obtain t where
    r0: "fst r0" and t: "miType_of p (vtype v) = Some t" and ch: "fst (chain t)"
    and re: "(word_of_int (fst (fin t)) :: 32 word) \<noteq> -1"
    and v': "v' = v1\<lparr>re_tag_offset := word_of_int (fst (fin t)) - 4, fp := Some (snd (fin t))\<rparr>"
    by (auto simp: v1_def split: if_splits option.splits)
  \<comment> \<open>the sizes\<close>
  have fits: "184 + round8 nsize < 2 ^ 31"
    using assms(5) by (simp add: name_fits_def payload_start_eq nsize_def)
  have b_eq: "b = word_of_nat (48 + round8 nsize)"
    by (simp add: b_def b0_def size_defs round8_def)
  have unat_b: "unat b = 48 + round8 nsize"
    unfolding b_eq using fits by (intro unat_of_nat_32) simp
  have sint_b: "sint b = int (48 + round8 nsize)"
    unfolding b_eq using fits by (intro sint_of_nat_32) simp
  have "48 + round8 nsize < SIZE_MOD p"
    using fits SIZE_MOD_ge [of p] by simp
  then have "int (48 + round8 nsize) < int (SIZE_MOD p)"
    by (simp only: of_nat_less_iff)
  then have mts: "nat (sint b mod int (SIZE_MOD p)) = 48 + round8 nsize"
    unfolding sint_b by (subst mod_pos_pos_trivial) simp_all
  \<comment> \<open>the writes, each at the end of the file\<close>
  define A where "A = concat (map int_bytes [word_of_nat (mi2mx ! t), 0, 0, 0, 0, 0, 0, 0])"
  define B where "B = concat (map int_bytes (dword[0 := word_of_nat miINT32, 1 := 8, 2 := 1, 3 := 0]))"
  define C where "C = concat (map int_bytes (dword[0 := word_of_nat miINT32, 1 := 8, 2 := 1, 3 := 0, 0 := word_of_nat miINT8, 1 := word_of_nat nsize]))"
  define E where "E = concat (map int_bytes (dword[0 := word_of_nat miINT32, 1 := 8, 2 := 1, 3 := 0, 0 := word_of_nat miINT8, 1 := word_of_nat nsize, 0 := word_of_nat t, 1 := 0]))"
  define k5 where "k5 = (\<lambda>f. put E 4 2 f)"
  define k4 where "k4 = (\<lambda>f. and_then (if nsize mod 8 \<noteq> 0 then put (replicate 8 0) 1 (8 - nsize mod 8) f
                                 else (True, f)) k5)"
  define k3 where "k3 = (\<lambda>f. and_then (put (string_bytes (name v1)) 1 nsize f) k4)"
  define k2 where "k2 = (\<lambda>f. and_then (put C 4 2 f) k3)"
  define k1 where "k1 = (\<lambda>f. and_then (put B 4 4 f) k2)"
  have ch_eq: "chain t = and_then (put A 1 8 (snd r0)) k1"
    unfolding chain_def k1_def k2_def k3_def k4_def k5_def A_def B_def C_def E_def
    by (rule refl)
  have B_eq: "B = int_bytes (word_of_nat miINT32) @ int_bytes 8 @ int_bytes 1 @ int_bytes 0"
    by (simp add: B_def dword_def dword_updates)
  have C_eq: "take 8 C = int_bytes (word_of_nat miINT8) @ int_bytes (word_of_nat nsize)"
    by (simp add: C_def dword_def dword_updates)
  have E_eq: "take 8 E = int_bytes (word_of_nat t) @ int_bytes 0"
    by (simp add: E_def dword_def dword_updates)
  have A_eq: "take 8 A = int_bytes (word_of_nat (mi2mx ! t)) @ int_bytes 0"
    by (simp add: A_def)
  have D_eq: "concat (map int_bytes dword) =
      int_bytes (word_of_nat miMATRIX) @ int_bytes b @ int_bytes (word_of_nat miUINT32) @ int_bytes 8"
    by (simp add: dword_def)
  have e0: "at_end f" using assms(2,3) by (simp add: at_end_def)
  have r0': "put (concat (map int_bytes dword)) 4 4 f = (True, snd r0)"
    using r0 unfolding r0_def by (metis (full_types) prod.collapse)
  have c0: "content (snd r0) = content f @ concat (map int_bytes dword)" "at_end (snd r0)"
    using put_append [OF r0' _ e0] by (simp_all add: D_eq)
  from ch obtain fe where c: "chain t = (True, fe)"
    by (metis (full_types) prod.collapse)
  from c [unfolded ch_eq] obtain f1 where q1: "put A 1 8 (snd r0) = (True, f1)"
    and n1: "k1 f1 = (True, fe)" by (rule and_thenE)
  from n1 [unfolded k1_def] obtain f2 where q2: "put B 4 4 f1 = (True, f2)"
    and n2: "k2 f2 = (True, fe)" by (rule and_thenE)
  from n2 [unfolded k2_def] obtain f3 where q3: "put C 4 2 f2 = (True, f3)"
    and n3: "k3 f3 = (True, fe)" by (rule and_thenE)
  from n3 [unfolded k3_def] obtain f4 where q4: "put (string_bytes (name v1)) 1 nsize f3 = (True, f4)"
    and n4: "k4 f4 = (True, fe)" by (rule and_thenE)
  from n4 [unfolded k4_def] obtain f5 where
    q5: "(if nsize mod 8 \<noteq> 0 then put (replicate 8 0) 1 (8 - nsize mod 8) f4 else (True, f4)) = (True, f5)"
    and n5: "k5 f5 = (True, fe)" by (rule and_thenE)
  note q6 = n5 [unfolded k5_def]
  have c1: "content f1 = content (snd r0) @ take 8 A" "at_end f1"
    using put_append [OF q1 _ c0(2)] by (simp_all add: A_def)
  have c2: "content f2 = content f1 @ B" "at_end f2"
    using put_append [OF q2 _ c1(2)] by (simp_all add: B_eq)
  have c3: "content f3 = content f2 @ take 8 C" "at_end f3"
    using put_append [OF q3 _ c2(2)] by (simp_all add: C_def dword_def dword_updates)
  have c4: "content f4 = content f3 @ string_bytes (name v)" "at_end f4"
    using put_append [OF q4 _ c3(2)] by (simp_all add: v1_def nsize_def)
  have c5': "content f5 = content f4 @ replicate (round8 nsize - nsize) 0 \<and> at_end f5"
  proof (cases "nsize mod 8 \<noteq> 0")
    case True
    with q5 have q: "put (replicate 8 0) 1 (8 - nsize mod 8) f4 = (True, f5)" by simp
    show ?thesis
      using put_append [OF q _ c4(2)] True by (simp add: round8_def min_def)
  next
    case False
    with q5 show ?thesis
      using c4(2) by (simp add: round8_def)
  qed
  note c5 = c5' [THEN conjunct1] c5' [THEN conjunct2]
  have c6: "content (fe) = content f5 @ take 8 E" "at_end (fe)"
    using put_append [OF q6 _ c5(2)] by (simp_all add: E_def dword_def dword_updates)
  define H where "H = content f"
  have lH: "length H = 128" using assms(3) by (simp add: H_def)
  have cont: "content (fe) =
     H @ (int_bytes (word_of_nat miMATRIX) @ int_bytes b @ int_bytes (word_of_nat miUINT32) @ int_bytes 8)
       @ (int_bytes (word_of_nat (mi2mx ! t)) @ int_bytes 0)
       @ (int_bytes (word_of_nat miINT32) @ int_bytes 8 @ int_bytes 1 @ int_bytes 0)
       @ (int_bytes (word_of_nat miINT8) @ int_bytes (word_of_nat nsize))
       @ (string_bytes (name v) @ replicate (round8 nsize - nsize) 0)
       @ (int_bytes (word_of_nat t) @ int_bytes 0)"
    by (simp add: c6 c5 c4 c3 c2 c1 c0 D_eq A_eq B_eq C_eq E_eq H_def)
  have len: "length (content (fe)) = 184 + round8 nsize"
    using round8_ge [of nsize] by (simp add: cont lH nsize_def)
  have pos: "pos (fe) = 184 + round8 nsize"
    using c6(2) len by (simp add: at_end_def)
  \<comment> \<open>the position that is recorded\<close>
  obtain r f'' where ft: "ftell p fe = (r, f'')"
    by (cases "ftell p fe")
  from re ft c have "r \<noteq> -1" by (auto simp: fin_def)
  note tl = ftell_ok [OF ft this]
  have "(word_of_int r :: 32 word) - 4 = word_of_nat (184 + round8 nsize - 4)"
    using tl pos by simp
  with v' ft mts c have v'_eq: "v' = v\<lparr>mat_tag_size := 48 + round8 nsize,
       re_tag_offset := word_of_nat (184 + round8 nsize - 4), fp := Some f''\<rparr>"
    by (simp add: fin_def v1_def)
  have f1: "total_length_field (content f'') = 48 + round8 nsize"
    using tl unat_b by (simp add: total_length_field_def peek_def cont lH)
  have f2: "element_count_field (content f'') = 0"
    using tl by (simp add: element_count_field_def peek_def cont lH)
  have f3: "payload_length_field (name v) (content f'') = 0"
    using tl round8_ge [of nsize]
    by (simp add: payload_length_field_def payload_start_eq peek_def cont lH nsize_def [symmetric])
  have f4: "array_flags_tag (content f'') = miUINT32"
    using tl by (simp add: array_flags_tag_def peek_def cont lH mi_defs)
  show ?thesis
    using t v'_eq tl pos len f1 f2 f3 f4
    by (auto simp: payload_start_eq nsize_def [symmetric])
qed

lemma write_meta_data_Inr:
  assumes "fp v = Some f"
  shows "\<exists>r. write_meta_data p v = Inr r"
  unfolding write_meta_data_def assms option.case by blast

lemma write_meta_data_keeps:
  assumes "fp v = Some f" and "write_meta_data p v = Inr (ok, v')"
  shows "fp v' \<noteq> None \<and> vtype v' = vtype v \<and> name v' = name v \<and> count v' = count v \<and>
         mat_tag_offset v' = mat_tag_offset v \<and> dim_tag_offset v' = dim_tag_offset v \<and>
         (miType_of p (vtype v) = None \<longrightarrow> \<not> ok)"
  using assms(2) unfolding write_meta_data_def assms(1) option.case Let_def case_prod_beta
  by (auto split: option.splits if_splits)

lemma write_meta_data_shape:
  assumes "fp v = Some f"
  shows "\<exists>ok v'. write_meta_data p v = Inr (ok, v') \<and> fp v' \<noteq> None \<and> vtype v' = vtype v \<and>
           name v' = name v \<and> count v' = count v \<and>
           mat_tag_offset v' = mat_tag_offset v \<and> dim_tag_offset v' = dim_tag_offset v \<and>
           (miType_of p (vtype v) = None \<longrightarrow> \<not> ok)"
proof -
  from write_meta_data_Inr [OF assms] obtain ok v' where r: "write_meta_data p v = Inr (ok, v')"
    by (metis surj_pair)
  from write_meta_data_keeps [OF assms r] r show ?thesis
    by (intro exI [of _ ok] exI [of _ v']) simp
qed

lemma fopen_wb_Some:
  "fopen_wb w path = Some f \<Longrightarrow> content f = [] \<and> pos f = 0 \<and> openable w path = Some (faults f)"
  by (auto simp: fopen_wb_def split: option.splits)

lemma ctor_null_stream:
  assumes "openable w (d @ [separator w] @ nm @ ''.mat'') = None"
  shows "Variable_ctor p w T d nm = Inl NullStream"
  using assms by (simp add: Variable_ctor_def fopen_wb_def write_header_def)

lemma ctor_cases:
  assumes "openable w (d @ [separator w] @ nm @ ''.mat'') = Some fs"
  shows "\<exists>v. Variable_ctor p w T d nm = Inr v \<and> vtype v = T \<and> name v = nm \<and> count v = 0 \<and>
           mat_tag_offset v = 0x84 \<and> dim_tag_offset v = 0xA4 \<and>
           (miType_of p T = None \<longrightarrow> fp v = None) \<and>
           (fp v \<noteq> None \<longrightarrow> name_fits nm \<longrightarrow>
              stream_ok p v \<and> array_flags_tag (content (the (fp v))) = miUINT32)"
proof -
  define f0 where "f0 = \<lparr>content = [], pos = 0, faults = fs\<rparr>"
  define v0 where "v0 = \<lparr>vtype = T, count = 0, dim_tag_offset = 0xA4, fp = Some f0,
               mat_tag_offset = 0x84, mat_tag_size = 0, name = nm, re_tag_offset = 0\<rparr>"
  have fp0: "fp v0 = Some f0" by (simp add: v0_def)
  have ctor: "Variable_ctor p w T d nm =
     (case write_header w v0 of
           Inl u \<Rightarrow> Inl u
         | Inr (ok, v) \<Rightarrow>
             if \<not> ok then fclose_fp v
             else case write_meta_data p v of
                    Inl u \<Rightarrow> Inl u
                  | Inr (ok, v) \<Rightarrow> if \<not> ok then fclose_fp v else Inr v)"
    using assms by (simp add: Variable_ctor_def fopen_wb_def v0_def f0_def)
  from write_header_shape [OF fp0] obtain ok1 f1 where
    h: "write_header w v0 = Inr (ok1, v0\<lparr>fp := Some f1\<rparr>)" by blast
  show ?thesis
  proof (cases ok1)
    case False
    with ctor h show ?thesis
      by (simp add: fclose_fp_def v0_def)
  next
    case True
    with h have hT: "write_header w v0 = Inr (True, v0\<lparr>fp := Some f1\<rparr>)" by simp
    from write_header_True [OF fp0 _ _ hT] obtain f1' where
      "v0\<lparr>fp := Some f1\<rparr> = v0\<lparr>fp := Some f1'\<rparr>" "length (content f1') = 128" "pos f1' = 128"
      by (auto simp: f0_def)
    then have l1: "length (content f1) = 128" "pos f1 = 128"
      by (auto simp: v0_def)
    define v1 where "v1 = v0\<lparr>fp := Some f1\<rparr>"
    have fp1: "fp v1 = Some f1" by (simp add: v1_def)
    from write_meta_data_shape [OF fp1] obtain ok2 v2 where
      md: "write_meta_data p v1 = Inr (ok2, v2)" and s2: "fp v2 \<noteq> None" "vtype v2 = vtype v1"
        "name v2 = name v1" "count v2 = count v1"
        "mat_tag_offset v2 = mat_tag_offset v1" "dim_tag_offset v2 = dim_tag_offset v1"
        "miType_of p (vtype v1) = None \<longrightarrow> \<not> ok2"
      by blast
    show ?thesis
    proof (cases ok2)
      case False
      with ctor hT md s2 show ?thesis
        by (auto simp: fclose_fp_def v1_def v0_def)
    next
      case ok2: True
      with md have mdT: "write_meta_data p v1 = Inr (True, v2)" by simp
      have res: "Variable_ctor p w T d nm = Inr v2"
        using ctor hT mdT by (simp add: v1_def)
      have basics: "vtype v2 = T" "name v2 = nm" "count v2 = 0" "miType_of p T \<noteq> None"
        using s2 ok2 by (auto simp: v1_def v0_def)
      have offs: "mat_tag_offset v2 = 0x84" "dim_tag_offset v2 = 0xA4"
        using s2 by (simp_all add: v1_def v0_def)
      have "name_fits nm \<longrightarrow>
              stream_ok p v2 \<and> array_flags_tag (content (the (fp v2))) = miUINT32"
      proof
        assume nf: "name_fits nm"
        then have nf1: "name_fits (name v1)" by (simp add: v1_def v0_def)
        from write_meta_data_True [OF fp1 l1(2) l1(1) mdT nf1] obtain f2 where
          v2: "v2 = v1\<lparr>mat_tag_size := payload_start (name v1) - 136,
                  re_tag_offset := word_of_nat (payload_start (name v1) - 4), fp := Some f2\<rparr>"
          and f2: "pos f2 = payload_start (name v1)" "pos f2 \<le> LONG_MAX p"
           "length (content f2) = payload_start (name v1)"
           "total_length_field (content f2) = payload_start (name v1) - 136"
           "element_count_field (content f2) = 0"
           "payload_length_field (name v1) (content f2) = 0"
           "array_flags_tag (content f2) = miUINT32"
          by blast
        have nm1: "name v1 = nm" by (simp add: v1_def v0_def)
        have small: "payload_start nm - 136 < 2 ^ 32"
          using nf by (simp add: name_fits_def)
        show "stream_ok p v2 \<and> array_flags_tag (content (the (fp v2))) = miUINT32"
          using f2 nf small unfolding nm1
          by (simp add: stream_ok_def v2 v1_def v0_def round8_def)
      qed
      then show ?thesis using res basics offs by auto
    qed
  qed
qed

subsection \<open>A successful write\<close>

lemma le_bytes_Nil [simp]: "(le_bytes n v = []) = (n = 0)"
  by (cases n) simp_all

lemma le_val_take4:
  assumes "4 \<le> n"
  shows "le_val (take 4 (le_bytes n v)) = v mod 2 ^ 32"
proof -
  have "take 4 (le_bytes n v) = le_bytes 4 v"
    using assms by (simp add: take_le_bytes min_def)
  then show ?thesis by (simp add: le_val_le_bytes)
qed

text \<open>The three patches and the padding, on the bytes alone.\<close>

lemma patched_file:
  fixes c0 :: "byte list" and P q szt k b n x :: nat
  assumes P: "184 \<le> P" and q: "P + q \<le> length c0" and szt: "4 \<le> szt" "szt \<le> 8"
    and pad: "k \<le> 8"
  defines "c1 \<equiv> poke c0 132 (le_bytes szt b)"
  defines "c2 \<equiv> poke c1 164 (le_bytes szt n)"
  defines "c3 \<equiv> poke c2 (P - 4) (le_bytes szt x)"
  defines "c4 \<equiv> poke c3 (P + q) (replicate k 0)"
  shows "length c3 = max (length c0) (P - 4 + szt)"
    and "length c4 = (if k = 0 then length c3 else max (length c3) (P + q + k))"
    and "le_val (peek c3 132 4) = b mod 2 ^ 32"
    and "le_val (peek c3 164 4) = n mod 2 ^ 32"
    and "le_val (peek c3 (P - 4) 4) = x mod 2 ^ 32"
    and "peek c4 132 4 = peek c3 132 4"
    and "peek c4 164 4 = peek c3 164 4"
    and "peek c4 (P - 4) 4 = peek c3 (P - 4) 4"
proof -
  have l1: "length c1 = length c0"
    using P q szt by (simp add: c1_def poke_length)
  have l2: "length c2 = length c0"
    using P q szt l1 by (simp add: c2_def poke_length)
  show l3: "length c3 = max (length c0) (P - 4 + szt)"
    using szt l2 by (simp add: c3_def poke_length)
  show "length c4 = (if k = 0 then length c3 else max (length c3) (P + q + k))"
    by (simp add: c4_def poke_length)
  have i1: "132 \<le> length c0" "164 \<le> length c1" "P - 4 \<le> length c2" "P + q \<le> length c3"
    using P q l1 l2 l3 by simp_all
  have "peek c3 132 4 = peek c2 132 4"
    unfolding c3_def using P i1 by (intro peek_poke_before) simp_all
  also have "\<dots> = peek c1 132 4"
    unfolding c2_def using i1 by (intro peek_poke_before) simp_all
  also have "\<dots> = take 4 (le_bytes szt b)"
    unfolding c1_def using i1 szt by (intro peek_poke_same) simp_all
  finally show "le_val (peek c3 132 4) = b mod 2 ^ 32"
    using szt by (simp add: le_val_take4)
  have "peek c3 164 4 = peek c2 164 4"
    unfolding c3_def using P i1 by (intro peek_poke_before) simp_all
  also have "\<dots> = take 4 (le_bytes szt n)"
    unfolding c2_def using i1 szt by (intro peek_poke_same) simp_all
  finally show "le_val (peek c3 164 4) = n mod 2 ^ 32"
    using szt by (simp add: le_val_take4)
  have "peek c3 (P - 4) 4 = take 4 (le_bytes szt x)"
    unfolding c3_def using i1 szt by (intro peek_poke_same) simp_all
  then show "le_val (peek c3 (P - 4) 4) = x mod 2 ^ 32"
    using szt by (simp add: le_val_take4)
  show "peek c4 132 4 = peek c3 132 4"
    unfolding c4_def using P i1 by (intro peek_poke_before) simp_all
  show "peek c4 164 4 = peek c3 164 4"
    unfolding c4_def using P i1 by (intro peek_poke_before) simp_all
  show "peek c4 (P - 4) 4 = peek c3 (P - 4) 4"
    unfolding c4_def using P i1 by (intro peek_poke_before) simp_all
qed

lemma drop_le_bytes: "drop k (le_bytes n v) = le_bytes (n - k) (v div 256 ^ k)"
proof (induction n arbitrary: v k)
  case 0
  then show ?case by simp
next
  case (Suc n)
  show ?case
  proof (cases k)
    case 0
    then show ?thesis by simp
  next
    case (Suc j)
    then show ?thesis using Suc.IH [of j "v div 256"]
      by (simp add: div_mult2_eq)
  qed
qed

lemma peek_poke_within:
  assumes "at \<le> length cs" and "at \<le> a" and "a + n \<le> at + length bs"
  shows "peek (poke cs at bs) a n = take n (drop (a - at) bs)"
proof -
  have "drop a (take at cs @ bs @ drop (at + length bs) cs)
        = drop (a - at) bs @ drop (at + length bs) cs"
    using assms by simp
  then show ?thesis using assms by (simp add: poke_inside peek_def)
qed

text \<open>With an 8-byte \<^verbatim>\<open>size_t\<close> the first patch also covers the four bytes after its field.\<close>

lemma patched_neighbour:
  fixes c0 :: "byte list" and P q k b n x :: nat
  assumes P: "184 \<le> P" and q: "P + q \<le> length c0"
  defines "c1 \<equiv> poke c0 132 (le_bytes 8 b)"
  defines "c2 \<equiv> poke c1 164 (le_bytes 8 n)"
  defines "c3 \<equiv> poke c2 (P - 4) (le_bytes 8 x)"
  defines "c4 \<equiv> poke c3 (P + q) (replicate k 0)"
  shows "le_val (peek c4 136 4) = b div 2 ^ 32 mod 2 ^ 32"
proof -
  have l1: "length c1 = length c0"
    using P q by (simp add: c1_def poke_length)
  have l2: "length c2 = length c0"
    using P q l1 by (simp add: c2_def poke_length)
  have l3: "length c3 = max (length c0) (P - 4 + 8)"
    using l2 by (simp add: c3_def poke_length)
  have i1: "132 \<le> length c0" "164 \<le> length c1" "P - 4 \<le> length c2" "P + q \<le> length c3"
    using P q l1 l2 l3 by simp_all
  have "peek c4 136 4 = peek c3 136 4"
    unfolding c4_def using P i1 by (intro peek_poke_before) simp_all
  also have "\<dots> = peek c2 136 4"
    unfolding c3_def using P i1 by (intro peek_poke_before) simp_all
  also have "\<dots> = peek c1 136 4"
    unfolding c2_def using i1 by (intro peek_poke_before) simp_all
  also have "\<dots> = take 4 (drop (136 - 132) (le_bytes 8 b))"
    unfolding c1_def using i1 by (intro peek_poke_within) simp_all
  also have "\<dots> = le_bytes 4 (b div 256 ^ 4)"
    by (simp add: drop_le_bytes take_le_bytes)
  finally show ?thesis by (simp add: le_val_le_bytes)
qed

lemma update_counters_True:
  fixes p :: platform and v :: Variable and f :: FILE
  assumes "update_counters p v = Inr (True, v')" and "fp v = Some f"
  defines "szt \<equiv> sizeof_size_t p"
  defines "b0 \<equiv> (mat_tag_size v + count v * sizeof p (vtype v)) mod SIZE_MOD p"
  defines "b1 \<equiv> (if b0 mod 8 \<noteq> 0 then (b0 + (8 - b0 mod 8)) mod SIZE_MOD p else b0)"
  defines "c1 \<equiv> poke (content f) (nat (sint (mat_tag_offset v))) (le_bytes szt b1)"
  defines "c2 \<equiv> poke c1 (nat (sint (dim_tag_offset v))) (le_bytes szt (count v))"
  defines "c3 \<equiv> poke c2 (nat (sint (re_tag_offset v)))
                    (le_bytes szt ((count v * sizeof p (vtype v)) mod SIZE_MOD p))"
  shows "\<exists>f'. v' = v\<lparr>fp := Some f'\<rparr> \<and> pos f' = pos f \<and> pos f \<le> LONG_MAX p \<and>
          0 \<le> sint (mat_tag_offset v) \<and> 0 \<le> sint (dim_tag_offset v) \<and>
          0 \<le> sint (re_tag_offset v) \<and>
          content f' = poke c3 (pos f) (replicate (if b0 mod 8 \<noteq> 0 then 8 - b0 mod 8 else 0) 0)"
proof -
  obtain cur f0 where t: "ftell p f = (cur, f0)" by (cases "ftell p f")
  have szt: "0 < szt" using sizeof_size_t_cases [of p] by (auto simp: szt_def)
  define k7 where "k7 = (\<lambda>f. if b0 mod 8 \<noteq> 0
                     then and_then (put (replicate 8 0) 1 (8 - b0 mod 8) f) (\<lambda>f. seek cur f)
                     else (True, f))"
  define k6 where "k6 = (\<lambda>f. and_then (seek cur f) k7)"
  define k5 where "k5 = (\<lambda>f. and_then (put (size_t_bytes p ((count v * sizeof p (vtype v)) mod SIZE_MOD p)) (sizeof_size_t p) 1 f) k6)"
  define k4 where "k4 = (\<lambda>f. and_then (seek (sint (re_tag_offset v)) f) k5)"
  define k3 where "k3 = (\<lambda>f. and_then (put (size_t_bytes p (count v)) (sizeof_size_t p) 1 f) k4)"
  define k2 where "k2 = (\<lambda>f. and_then (seek (sint (dim_tag_offset v)) f) k3)"
  define k1 where "k1 = (\<lambda>f. and_then (put (size_t_bytes p b1) (sizeof_size_t p) 1 f) k2)"
  define chain where "chain = and_then (seek (sint (mat_tag_offset v)) f0) k1"
  have eq: "update_counters p v =
      Inr (if cur = -1 then (False, v\<lparr>fp := Some f0\<rparr>)
           else (fst chain, v\<lparr>fp := Some (snd chain)\<rparr>))"
    unfolding update_counters_def assms(2) option.case t prod.case Let_def case_prod_beta
      fst_conv snd_conv
      chain_def k1_def k2_def k3_def k4_def k5_def k6_def k7_def b1_def b0_def
    by (rule refl)
  from assms(1) [unfolded eq] have cur: "cur \<noteq> -1" and "fst chain"
    and v': "v' = v\<lparr>fp := Some (snd chain)\<rparr>"
    by (auto split: if_splits)
  then obtain fe where c: "chain = (True, fe)" and v': "v' = v\<lparr>fp := Some fe\<rparr>"
    by (metis (full_types) prod.collapse snd_conv)
  note tf = ftell_ok [OF t cur]
  from c [unfolded chain_def] obtain f1 where s1: "seek (sint (mat_tag_offset v)) f0 = (True, f1)"
    and n1: "k1 f1 = (True, fe)" by (rule and_thenE)
  from n1 [unfolded k1_def] obtain f2 where p2: "put (size_t_bytes p b1) (sizeof_size_t p) 1 f1 = (True, f2)"
    and n2: "k2 f2 = (True, fe)" by (rule and_thenE)
  from n2 [unfolded k2_def] obtain f3 where s3: "seek (sint (dim_tag_offset v)) f2 = (True, f3)"
    and n3: "k3 f3 = (True, fe)" by (rule and_thenE)
  from n3 [unfolded k3_def] obtain f4 where p4: "put (size_t_bytes p (count v)) (sizeof_size_t p) 1 f3 = (True, f4)"
    and n4: "k4 f4 = (True, fe)" by (rule and_thenE)
  from n4 [unfolded k4_def] obtain f5 where s5: "seek (sint (re_tag_offset v)) f4 = (True, f5)"
    and n5: "k5 f5 = (True, fe)" by (rule and_thenE)
  from n5 [unfolded k5_def] obtain f6 where
    p6: "put (size_t_bytes p ((count v * sizeof p (vtype v)) mod SIZE_MOD p)) (sizeof_size_t p) 1 f5 = (True, f6)"
    and n6: "k6 f6 = (True, fe)" by (rule and_thenE)
  from n6 [unfolded k6_def] obtain f7 where s7: "seek cur f6 = (True, f7)"
    and n7: "k7 f7 = (True, fe)" by (rule and_thenE)
  have szt': "0 < sizeof_size_t p" using szt by (simp add: szt_def)
  note a1 = seek_True [OF s1] and a2 = put_True [OF p2 szt'] and a3 = seek_True [OF s3]
    and a4 = put_True [OF p4 szt'] and a5 = seek_True [OF s5] and a6 = put_True [OF p6 szt']
    and a7 = seek_True [OF s7]
  have c3: "content f7 = c3" "pos f7 = pos f"
    using a1 a2 a3 a4 a5 a6 a7 tf
    by (simp_all add: c1_def c2_def c3_def size_t_bytes_def szt_def)
  have fin: "content fe = poke c3 (pos f) (replicate (if b0 mod 8 \<noteq> 0 then 8 - b0 mod 8 else 0) 0)
             \<and> pos fe = pos f"
  proof (cases "b0 mod 8 \<noteq> 0")
    case False
    with n7 c3 show ?thesis by (simp add: k7_def poke_def)
  next
    case True
    with n7 have "and_then (put (replicate 8 0) 1 (8 - b0 mod 8) f7) (\<lambda>f. seek cur f) = (True, fe)"
      by (simp add: k7_def)
    then obtain f8 where p8: "put (replicate 8 0) 1 (8 - b0 mod 8) f7 = (True, f8)"
      and s9: "seek cur f8 = (True, fe)" by (rule and_thenE)
    show ?thesis
      using put_True [OF p8] seek_True [OF s9] c3 tf True by (simp add: min_def)
  qed
  show ?thesis
    using v' fin tf a1 a3 a5 by (intro exI [of _ fe]) simp
qed

lemma payload_start_mod8 [simp]: "(payload_start nm - 136) mod 8 = 0"
proof -
  have "payload_start nm - 136 = 48 + round8 (length nm)" by (simp add: payload_start_def)
  moreover have "(48 + round8 (length nm)) mod 8 = 0"
    using round8_mod [of "length nm"] by presburger
  ultimately show ?thesis by simp
qed

lemma payload_start_ge: "184 \<le> payload_start nm"
  by (simp add: payload_start_def)

lemma round8_split: "round8 n = n + (if n mod 8 \<noteq> 0 then 8 - n mod 8 else 0)"
  by (simp add: round8_def)

lemma Variable_write_True:
  assumes ok: "stream_ok p v" and w: "Variable_write p v e = Inr (True, v')"
  shows "stream_ok p v' \<and> count v' = count v + 1 \<and> name v' = name v \<and> vtype v' = vtype v \<and>
         (sizeof_size_t p = 8 \<longrightarrow>
            array_flags_tag (content (the (fp v'))) =
              (payload_start (name v) - 136 + round8 ((count v + 1) * sizeof p (vtype v)))
                div 2 ^ 32 mod 2 ^ 32)"
proof -
  define sz where "sz = sizeof p (vtype v)"
  define P where "P = payload_start (name v)"
  define n where "n = count v + 1"
  define q where "q = n * sz"
  define szt where "szt = sizeof_size_t p"
  from ok obtain f where fp: "fp v = Some f"
    and offs: "mat_tag_offset v = 0x84" "dim_tag_offset v = 0xA4"
      "re_tag_offset v = word_of_nat (P - 4)" "mat_tag_size v = P - 136"
    and nf: "name_fits (name v)"
    and pos0: "pos f = P + count v * sz" and len0: "length (content f) = P + round8 (count v * sz)"
    by (auto simp: stream_ok_def P_def sz_def split: option.splits)
  have sz: "0 < sz" by (simp add: sz_def)
  have szt: "4 \<le> szt" "szt \<le> 8" "0 < szt"
    using sizeof_size_t_cases [of p] by (auto simp: szt_def)
  have P: "184 \<le> P" "P < 2 ^ 31" "(P - 136) mod 8 = 0"
    using nf payload_start_ge [of "name v"] by (simp_all add: P_def name_fits_def)
  obtain num f1 where fw: "fwrite (le_bytes sz e) sz 1 f = (num, f1)"
    by (cases "fwrite (le_bytes sz e) sz 1 f")
  define v1 where "v1 = v\<lparr>count := (count v + num) mod SIZE_MOD p, fp := Some f1\<rparr>"
  have weq: "Variable_write p v e = (if num = 1 then update_counters p v1 else Inr (False, v1))"
    unfolding Variable_write_def fp option.case Let_def fw [unfolded sz_def] prod.case v1_def
    by (rule refl)
  from w weq have num: "num = 1" and uc: "update_counters p v1 = Inr (True, v')"
    by (auto split: if_splits)
  have c0: "content f1 = poke (content f) (pos f) (le_bytes sz e)" "pos f1 = P + q"
    using fwrite_full [OF fw [unfolded num] sz] pos0 by (simp_all add: q_def n_def)
  have l0: "length (content f1) = max (P + round8 (count v * sz)) (P + q)"
    using sz by (simp add: c0 poke_length len0 pos0 q_def n_def)
  have fp1: "fp v1 = Some f1" by (simp add: v1_def)
  from update_counters_True [OF uc fp1] obtain f' where
    v': "v' = v1\<lparr>fp := Some f'\<rparr>" and pos': "pos f' = pos f1" and lm: "pos f1 \<le> LONG_MAX p"
    and cont: "content f' =
      poke (poke (poke (poke (content f1) (nat (sint (mat_tag_offset v1)))
          (le_bytes (sizeof_size_t p)
             (if (mat_tag_size v1 + count v1 * sizeof p (vtype v1)) mod SIZE_MOD p mod 8 \<noteq> 0
              then ((mat_tag_size v1 + count v1 * sizeof p (vtype v1)) mod SIZE_MOD p +
                    (8 - (mat_tag_size v1 + count v1 * sizeof p (vtype v1)) mod SIZE_MOD p mod 8)) mod SIZE_MOD p
              else (mat_tag_size v1 + count v1 * sizeof p (vtype v1)) mod SIZE_MOD p)))
        (nat (sint (dim_tag_offset v1))) (le_bytes (sizeof_size_t p) (count v1)))
        (nat (sint (re_tag_offset v1)))
        (le_bytes (sizeof_size_t p) ((count v1 * sizeof p (vtype v1)) mod SIZE_MOD p)))
        (pos f1)
        (replicate (if (mat_tag_size v1 + count v1 * sizeof p (vtype v1)) mod SIZE_MOD p mod 8 \<noteq> 0
                    then 8 - (mat_tag_size v1 + count v1 * sizeof p (vtype v1)) mod SIZE_MOD p mod 8
                    else 0) 0)"
    by blast
  \<comment> \<open>no counter wraps\<close>
  have "n \<le> q" using sz by (simp add: q_def)
  with lm c0 have small: "P + q \<le> LONG_MAX p" "n < SIZE_MOD p" "q < SIZE_MOD p"
    "P - 136 + q + 8 < SIZE_MOD p"
    using LONG_MAX_lt_SIZE_MOD [of p] P by simp_all
  have cnt1: "count v1 = n"
    using small by (simp add: v1_def num n_def)
  have v1f: "mat_tag_size v1 = P - 136" "sizeof p (vtype v1) = sz"
    by (simp_all add: v1_def offs sz_def)
  have b0: "(mat_tag_size v1 + n * sizeof p (vtype v1)) mod SIZE_MOD p = P - 136 + q"
    using small by (simp add: v1f q_def)
  have b0m: "(P - 136 + q) mod 8 = q mod 8"
    using P(3) by (metis add_cancel_left_left mod_add_left_eq)
  define k where "k = (if q mod 8 \<noteq> 0 then 8 - q mod 8 else 0)"
  have R: "round8 q = q + k" by (simp add: k_def round8_split)
  have b1: "(if q mod 8 \<noteq> 0 then (P - 136 + q + (8 - q mod 8)) mod SIZE_MOD p else P - 136 + q)
            = P - 136 + round8 q"
  proof (cases "q mod 8 = 0")
    case True
    then show ?thesis by (simp add: round8_def)
  next
    case False
    have "P - 136 + q + (8 - q mod 8) < SIZE_MOD p"
      using small by linarith
    then have "(P - 136 + q + (8 - q mod 8)) mod SIZE_MOD p = P - 136 + (q + (8 - q mod 8))"
      by simp
    with False show ?thesis by (simp add: round8_def)
  qed
  have s1: "nat (sint (mat_tag_offset v1)) = 132" "nat (sint (dim_tag_offset v1)) = 164"
    by (simp_all add: v1_def offs)
  have v1re: "re_tag_offset v1 = word_of_nat (P - 4)"
    unfolding v1_def using offs(3) by simp
  have sre: "sint (word_of_nat (P - 4) :: 32 word) = int (P - 4)"
    using P by (intro sint_of_nat_32) simp
  have s3: "nat (sint (re_tag_offset v1)) = P - 4"
    unfolding v1re sre by (rule nat_int)
  have xq: "(n * sizeof p (vtype v1)) mod SIZE_MOD p = q"
    using small by (simp add: v1f q_def)
  have cont': "content f' =
     poke (poke (poke (poke (content f1) 132 (le_bytes szt (P - 136 + round8 q)))
        164 (le_bytes szt n)) (P - 4) (le_bytes szt q)) (P + q) (replicate k 0)"
    unfolding cont b0 b0m b1 s1 s3 xq cnt1 c0(2) k_def szt_def by (rule refl)
  have kle: "k \<le> 8" by (simp add: k_def)
  have q0: "P + q \<le> length (content f1)" by (simp add: l0)
  note pf = patched_file [OF P(1) q0 szt(1,2) kle, of "P - 136 + round8 q" n q]
  \<comment> \<open>the length of the file\<close>
  have qpos: "0 < q" using sz by (simp add: q_def n_def)
  have R8: "8 \<le> round8 q" using qpos by (rule round8_pos)
  have mono: "round8 (count v * sz) \<le> round8 q"
    by (intro round8_mono) (simp add: q_def n_def)
  have len': "length (content f') = P + round8 q"
  proof (cases "k = 0")
    case True
    then have "round8 q = q" using R by simp
    with mono R8 szt True show ?thesis
      unfolding cont' pf(2) pf(1) l0 by simp
  next
    case False
    with mono R8 szt R show ?thesis
      unfolding cont' pf(2) pf(1) l0 by simp
  qed
  have fields: "total_length_field (content f') = (P - 136 + round8 q) mod 2 ^ 32"
    "element_count_field (content f') = n mod 2 ^ 32"
    "payload_length_field (name v) (content f') = q mod 2 ^ 32"
    unfolding cont' total_length_field_def element_count_field_def payload_length_field_def
    using pf(3-8) by (simp_all add: P_def)
  have v'_eq: "v' = v\<lparr>count := n, fp := Some f'\<rparr>"
    using cnt1 by (simp add: v' v1_def)
  have ok': "stream_ok p v'"
    using offs nf pos' c0(2) small(1) len' fields
    by (simp add: stream_ok_def v'_eq P_def q_def sz_def)
  have "array_flags_tag (content f') = (P - 136 + round8 q) div 2 ^ 32 mod 2 ^ 32"
    if "sizeof_size_t p = 8"
    unfolding array_flags_tag_def cont' szt_def that
    using patched_neighbour [OF P(1) q0, of "P - 136 + round8 q" n q k] by simp
  with ok' show ?thesis by (simp add: v'_eq n_def P_def q_def sz_def)
qed

subsection \<open>Streams without faults\<close>

lemma good_put:
  "faults f = [] \<Longrightarrow> 0 < sz \<Longrightarrow> pos f = a \<Longrightarrow> good (put buf sz n f) (a + sz * n)"
  by (simp add: good_def put_no_fault)

lemma good_seek:
  "faults f = [] \<Longrightarrow> 0 \<le> off \<Longrightarrow> good (seek off f) (nat off)"
  by (simp add: good_def seek_no_fault)

lemma good_and_then:
  assumes "good r a" and "\<And>f. faults f = [] \<Longrightarrow> pos f = a \<Longrightarrow> good (k f) b"
  shows "good (and_then r k) b"
  using assms by (simp add: good_def and_then_def)

lemma goodD: "good r a \<Longrightarrow> r = (True, snd r) \<and> faults (snd r) = [] \<and> pos (snd r) = a"
  by (cases r) (simp add: good_def)

lemma fwrite_no_fault:
  "faults f = [] \<Longrightarrow> 0 < sz \<Longrightarrow>
   fwrite buf sz n f =
     (n, f\<lparr>content := poke (content f) (pos f) (take (sz * n) buf), pos := pos f + sz * n\<rparr>)"
  by (simp add: fwrite_def next_fault_def Let_def)

lemma write_header_no_fault:
  assumes "fp v = Some f" and "faults f = []"
  shows "\<exists>f'. write_header w v = Inr (True, v\<lparr>fp := Some f'\<rparr>) \<and> faults f' = []"
proof -
  define header_s where "header_s = ''Name: '' @ name v @ [CHR 0x0A] @ ''Format: MATLAB 5.0 MAT file''
                         @ [CHR 0x0A] @ ''Created: '' @ ctime_now w"
  define header where "header = take (min 124 (length header_s)) (string_bytes header_s)
                       @ replicate (124 - min 124 (length header_s)) (0::byte)"
  define endian where "endian = (push_bit 8 (of_nat (of_char (CHR ''M''))) OR of_nat (of_char (CHR ''I'')) :: 16 word)"
  define r1 where "r1 = fwrite header 1 124 f"
  define r2 where "r2 = fwrite (short_bytes 0x0100) 2 1 (snd r1)"
  define r3 where "r3 = fwrite (short_bytes endian) 2 1 (snd r2)"
  have eq: "write_header w v = Inr (fst r1 + fst r2 + fst r3 = 126, v\<lparr>fp := Some (snd r3)\<rparr>)"
    unfolding write_header_def assms(1) option.case Let_def case_prod_beta r1_def r2_def r3_def
      header_def header_s_def endian_def
    by (rule refl)
  have 1: "fst r1 = 124" "faults (snd r1) = []"
    using assms(2) by (simp_all add: r1_def fwrite_no_fault)
  have 2: "fst r2 = 1" "faults (snd r2) = []"
    using 1(2) by (simp_all add: r2_def fwrite_no_fault)
  have 3: "fst r3 = 1" "faults (snd r3) = []"
    using 2(2) by (simp_all add: r3_def fwrite_no_fault)
  show ?thesis
    unfolding eq using 1 2 3 by (intro exI [of _ "snd r3"]) simp
qed

lemma LONG_MAX_ge: "2 ^ 31 - 1 \<le> LONG_MAX p"
  by (cases p) (simp_all add: LONG_MAX_def)

lemma word_of_nat_not_minus1:
  assumes "n < 2 ^ 31"
  shows "(word_of_nat n :: 32 word) \<noteq> -1"
proof
  assume "(word_of_nat n :: 32 word) = -1"
  then have "unat (word_of_nat n :: 32 word) = unat (-1 :: 32 word)" by simp
  moreover have "unat (word_of_nat n :: 32 word) = n"
    using assms by (intro unat_of_nat_32) simp
  moreover have "unat (-1 :: 32 word) = 2 ^ 32 - 1"
    by (simp add: unsigned_minus_1_eq_mask mask_eq_exp_minus_1)
  ultimately show False using assms by simp
qed

lemma write_meta_data_no_fault:
  fixes p :: platform and v :: Variable and f :: FILE
  assumes "fp v = Some f" and "faults f = []" and "pos f = 128"
    and "miType_of p (vtype v) = Some t" and "name_fits (name v)"
  shows "\<exists>v' f'. write_meta_data p v = Inr (True, v') \<and> fp v' = Some f' \<and> faults f' = []"
proof -
  define nsize where "nsize = length (name v)"
  define b0 where "b0 = (word_of_nat (ARRAY_FLAGS_SIZE + DIM_ARRAY_SIZE + ARRAY_NAME_TAG_SIZE
                                    + nsize + RE_TAG_SIZE) :: 32 word)"
  define b where "b = (if nsize mod 8 \<noteq> 0 then b0 + word_of_nat (8 - nsize mod 8) else b0)"
  define v1 where "v1 = v\<lparr>mat_tag_size := nat (sint b mod int (SIZE_MOD p))\<rparr>"
  define dword where "dword = [word_of_nat miMATRIX, b, word_of_nat miUINT32, 8]"
  define r0 where "r0 = put (concat (map int_bytes dword)) 4 4 f"
  define chain where "chain = (\<lambda>miType.
                       and_then (put (concat (map int_bytes [word_of_nat (mi2mx ! miType), 0, 0, 0, 0, 0, 0, 0])) 1 8 (snd r0)) (\<lambda>f.
                       and_then (put (concat (map int_bytes (dword[0 := word_of_nat miINT32, 1 := 8, 2 := 1, 3 := 0]))) 4 4 f) (\<lambda>f.
                       and_then (put (concat (map int_bytes (dword[0 := word_of_nat miINT32, 1 := 8, 2 := 1, 3 := 0, 0 := word_of_nat miINT8, 1 := word_of_nat nsize]))) 4 2 f) (\<lambda>f.
                       and_then (put (string_bytes (name v1)) 1 nsize f) (\<lambda>f.
                       and_then (if nsize mod 8 \<noteq> 0 then put (replicate 8 0) 1 (8 - nsize mod 8) f
                                 else (True, f)) (\<lambda>f.
                       put (concat (map int_bytes (dword[0 := word_of_nat miINT32, 1 := 8, 2 := 1, 3 := 0, 0 := word_of_nat miINT8, 1 := word_of_nat nsize, 0 := word_of_nat miType, 1 := 0]))) 4 2 f))))))"
  define fin where "fin = (\<lambda>miType. ftell p (snd (chain miType)))"
  have eq: "write_meta_data p v = Inr (
           if \<not> fst r0 then (False, v1\<lparr>fp := Some (snd r0)\<rparr>)
           else case miType_of p (vtype v1) of
               None \<Rightarrow> (False, v1\<lparr>fp := Some (snd r0)\<rparr>)
             | Some miType \<Rightarrow>
                 if \<not> fst (chain miType) then (False, v1\<lparr>fp := Some (snd (chain miType))\<rparr>)
                 else if (word_of_int (fst (fin miType)) :: 32 word) = -1
                   then (False, v1\<lparr>re_tag_offset := word_of_int (fst (fin miType)), fp := Some (snd (fin miType))\<rparr>)
                   else (True, v1\<lparr>re_tag_offset := word_of_int (fst (fin miType)) - 4, fp := Some (snd (fin miType))\<rparr>))"
    unfolding write_meta_data_def assms(1) option.case Let_def case_prod_beta
      fin_def chain_def r0_def dword_def v1_def b_def b0_def nsize_def
    by (rule refl)
  define A where "A = concat (map int_bytes [word_of_nat (mi2mx ! t), 0, 0, 0, 0, 0, 0, 0])"
  define B where "B = concat (map int_bytes (dword[0 := word_of_nat miINT32, 1 := 8, 2 := 1, 3 := 0]))"
  define C where "C = concat (map int_bytes (dword[0 := word_of_nat miINT32, 1 := 8, 2 := 1, 3 := 0, 0 := word_of_nat miINT8, 1 := word_of_nat nsize]))"
  define E where "E = concat (map int_bytes (dword[0 := word_of_nat miINT32, 1 := 8, 2 := 1, 3 := 0, 0 := word_of_nat miINT8, 1 := word_of_nat nsize, 0 := word_of_nat t, 1 := 0]))"
  define k5 where "k5 = (\<lambda>f. put E 4 2 f)"
  define k4 where "k4 = (\<lambda>f. and_then (if nsize mod 8 \<noteq> 0 then put (replicate 8 0) 1 (8 - nsize mod 8) f
                                 else (True, f)) k5)"
  define k3 where "k3 = (\<lambda>f. and_then (put (string_bytes (name v1)) 1 nsize f) k4)"
  define k2 where "k2 = (\<lambda>f. and_then (put C 4 2 f) k3)"
  define k1 where "k1 = (\<lambda>f. and_then (put B 4 4 f) k2)"
  have ch_eq: "chain t = and_then (put A 1 8 (snd r0)) k1"
    unfolding chain_def k1_def k2_def k3_def k4_def k5_def A_def B_def C_def E_def
    by (rule refl)
  define P where "P = 184 + round8 nsize"
  have P: "P < 2 ^ 31"
    using assms(5) by (simp add: P_def name_fits_def payload_start_eq nsize_def)
  have g0: "good r0 144"
    using good_put [OF assms(2) _ assms(3), of 4 _ 4] by (simp add: r0_def)
  have g5: "good (k5 f) P" if "faults f = []" "pos f = 176 + round8 nsize" for f
    using good_put [OF that(1) _ that(2), of 4 E 2] by (simp add: k5_def P_def)
  have g4: "good (k4 f) P" if "faults f = []" "pos f = 176 + nsize" for f
  proof -
    have "good (if nsize mod 8 \<noteq> 0 then put (replicate 8 0) 1 (8 - nsize mod 8) f
                else (True, f)) (176 + round8 nsize)"
    proof (cases "nsize mod 8 \<noteq> 0")
      case True
      then show ?thesis
        using good_put [OF that(1) _ that(2), of 1 "replicate 8 0" "8 - nsize mod 8"]
        by (simp add: round8_def)
    next
      case False
      then show ?thesis using that by (simp add: good_def round8_def)
    qed
    then show ?thesis unfolding k4_def using g5 by (rule good_and_then)
  qed
  have g3: "good (k3 f) P" if "faults f = []" "pos f = 176" for f
    unfolding k3_def
    using good_put [OF that(1) _ that(2), of 1 "string_bytes (name v1)" nsize] g4
    by (intro good_and_then [where a = "176 + nsize"]) simp_all
  have g2: "good (k2 f) P" if "faults f = []" "pos f = 168" for f
    unfolding k2_def
    using good_put [OF that(1) _ that(2), of 4 C 2] g3
    by (intro good_and_then [where a = 176]) simp_all
  have g1: "good (k1 f) P" if "faults f = []" "pos f = 152" for f
    unfolding k1_def
    using good_put [OF that(1) _ that(2), of 4 B 4] g2
    by (intro good_and_then [where a = 168]) simp_all
  have gch: "good (chain t) P"
    unfolding ch_eq
    using good_put [of "snd r0" 1 144 A 8] goodD [OF g0] g1
    by (intro good_and_then [where a = 152]) simp_all
  note d = goodD [OF gch]
  have "pos (snd (chain t)) \<le> LONG_MAX p"
    using d P LONG_MAX_ge [of p] by simp
  with d have fin_eq: "fin t = (int P, snd (chain t))"
    unfolding fin_def by (intro ftell_no_fault [THEN trans]) simp_all
  have ne: "(word_of_int (int P) :: 32 word) \<noteq> -1"
    using word_of_nat_not_minus1 [OF P] by simp
  have r0: "fst r0" using g0 by (simp add: good_def)
  have ch: "fst (chain t)" using gch by (simp add: good_def)
  have t1: "miType_of p (vtype v1) = Some t" using assms(4) by (simp add: v1_def)
  have "write_meta_data p v =
     Inr (True, v1\<lparr>re_tag_offset := word_of_int (int P) - 4, fp := Some (snd (chain t))\<rparr>)"
    unfolding eq using r0 ch t1 ne by (simp add: fin_eq)
  then show ?thesis using d
    by (intro exI [of _ "v1\<lparr>re_tag_offset := word_of_int (int P) - 4, fp := Some (snd (chain t))\<rparr>"]
        exI [of _ "snd (chain t)"]) simp
qed

lemma ctor_no_fault:
  assumes op: "openable w (d @ [separator w] @ nm @ ''.mat'') = Some []"
    and t: "miType_of p T = Some t" and nf: "name_fits nm"
  shows "\<exists>v f. Variable_ctor p w T d nm = Inr v \<and> fp v = Some f \<and> faults f = [] \<and>
           stream_ok p v \<and> count v = 0 \<and> vtype v = T \<and> name v = nm"
proof -
  define f0 where "f0 = \<lparr>content = [], pos = 0, faults = []\<rparr>"
  define v0 where "v0 = \<lparr>vtype = T, count = 0, dim_tag_offset = 0xA4, fp = Some f0,
               mat_tag_offset = 0x84, mat_tag_size = 0, name = nm, re_tag_offset = 0\<rparr>"
  have fp0: "fp v0 = Some f0" by (simp add: v0_def)
  have ctor: "Variable_ctor p w T d nm =
     (case write_header w v0 of
           Inl u \<Rightarrow> Inl u
         | Inr (ok, v) \<Rightarrow>
             if \<not> ok then fclose_fp v
             else case write_meta_data p v of
                    Inl u \<Rightarrow> Inl u
                  | Inr (ok, v) \<Rightarrow> if \<not> ok then fclose_fp v else Inr v)"
    using op by (simp add: Variable_ctor_def fopen_wb_def v0_def f0_def)
  from write_header_no_fault [OF fp0] obtain f1 where
    h: "write_header w v0 = Inr (True, v0\<lparr>fp := Some f1\<rparr>)" and ff1: "faults f1 = []"
    by (auto simp: f0_def)
  from write_header_True [OF fp0 _ _ h] obtain f1' where
    "v0\<lparr>fp := Some f1\<rparr> = v0\<lparr>fp := Some f1'\<rparr>" "length (content f1') = 128" "pos f1' = 128"
    by (auto simp: f0_def)
  then have l1: "length (content f1) = 128" "pos f1 = 128"
    by (auto simp: v0_def)
  define v1 where "v1 = v0\<lparr>fp := Some f1\<rparr>"
  have v1: "fp v1 = Some f1" "miType_of p (vtype v1) = Some t" "name_fits (name v1)"
    using t nf by (simp_all add: v1_def v0_def)
  from write_meta_data_no_fault [OF v1(1) ff1 l1(2) v1(2,3)] obtain v2 f2 where
    md: "write_meta_data p v1 = Inr (True, v2)" and f2: "fp v2 = Some f2" "faults f2 = []"
    by blast
  have res: "Variable_ctor p w T d nm = Inr v2"
    using ctor h md by (simp add: v1_def)
  from ctor_cases [OF op, of p T] res f2 nf
  have "stream_ok p v2 \<and> count v2 = 0 \<and> vtype v2 = T \<and> name v2 = nm" by auto
  with res f2 show ?thesis by (intro exI [of _ v2] exI [of _ f2]) simp
qed

lemma Variable_write_no_fault:
  fixes p :: platform and v :: Variable and f :: FILE
  assumes ok: "stream_ok p v" and fp: "fp v = Some f" and nof: "faults f = []"
    and room: "pos f + sizeof p (vtype v) \<le> LONG_MAX p"
  shows "\<exists>v' f'. Variable_write p v e = Inr (True, v') \<and> fp v' = Some f' \<and> faults f' = []"
proof -
  define sz where "sz = sizeof p (vtype v)"
  define f1 where "f1 = f\<lparr>content := poke (content f) (pos f) (take (sz * 1) (le_bytes sz e)),
                          pos := pos f + sz * 1\<rparr>"
  define v1 where "v1 = v\<lparr>count := (count v + 1) mod SIZE_MOD p, fp := Some f1\<rparr>"
  have sz: "0 < sz" by (simp add: sz_def)
  have fw: "fwrite (le_bytes (sizeof p (vtype v)) e) (sizeof p (vtype v)) 1 f = (1, f1)"
    using fwrite_no_fault [OF nof sz, of "le_bytes sz e" 1] by (simp add: f1_def sz_def)
  have weq: "Variable_write p v e = update_counters p v1"
    unfolding Variable_write_def fp option.case Let_def fw prod.case v1_def by simp
  have f1: "faults f1 = []" "pos f1 \<le> LONG_MAX p" "fp v1 = Some f1"
    using nof room by (simp_all add: f1_def v1_def sz_def)
  have t: "ftell p f1 = (int (pos f1), f1)"
    using f1 by (intro ftell_no_fault)
  from ok fp have offs: "0 \<le> sint (mat_tag_offset v1)" "0 \<le> sint (dim_tag_offset v1)"
    "0 \<le> sint (re_tag_offset v1)"
    by (auto simp: stream_ok_def v1_def name_fits_def sint_of_nat_32)
  have szt: "0 < sizeof_size_t p" using sizeof_size_t_cases [of p] by auto
  define cur where "cur = int (pos f1)"
  define b0 where "b0 = (mat_tag_size v1 + count v1 * sizeof p (vtype v1)) mod SIZE_MOD p"
  define b1 where "b1 = (if b0 mod 8 \<noteq> 0 then (b0 + (8 - b0 mod 8)) mod SIZE_MOD p else b0)"
  define k7 where "k7 = (\<lambda>f. if b0 mod 8 \<noteq> 0
                     then and_then (put (replicate 8 0) 1 (8 - b0 mod 8) f) (\<lambda>f. seek cur f)
                     else (True, f))"
  define k6 where "k6 = (\<lambda>f. and_then (seek cur f) k7)"
  define k5 where "k5 = (\<lambda>f. and_then (put (size_t_bytes p ((count v1 * sizeof p (vtype v1)) mod SIZE_MOD p)) (sizeof_size_t p) 1 f) k6)"
  define k4 where "k4 = (\<lambda>f. and_then (seek (sint (re_tag_offset v1)) f) k5)"
  define k3 where "k3 = (\<lambda>f. and_then (put (size_t_bytes p (count v1)) (sizeof_size_t p) 1 f) k4)"
  define k2 where "k2 = (\<lambda>f. and_then (seek (sint (dim_tag_offset v1)) f) k3)"
  define k1 where "k1 = (\<lambda>f. and_then (put (size_t_bytes p b1) (sizeof_size_t p) 1 f) k2)"
  define chain where "chain = and_then (seek (sint (mat_tag_offset v1)) f1) k1"
  have eq: "update_counters p v1 =
      Inr (if cur = -1 then (False, v1\<lparr>fp := Some f1\<rparr>)
           else (fst chain, v1\<lparr>fp := Some (snd chain)\<rparr>))"
    unfolding update_counters_def f1(3) option.case t prod.case Let_def case_prod_beta
      fst_conv snd_conv
      chain_def k1_def k2_def k3_def k4_def k5_def k6_def k7_def b1_def b0_def cur_def
    by (rule refl)
  have cur: "0 \<le> cur" "cur \<noteq> -1" by (simp_all add: cur_def)
  have g7: "good (k7 f) (nat cur)" if "faults f = []" "pos f = nat cur" for f
  proof (cases "b0 mod 8 \<noteq> 0")
    case True
    have "good (and_then (put (replicate 8 0) 1 (8 - b0 mod 8) f) (\<lambda>f. seek cur f)) (nat cur)"
      using good_put [OF that(1) _ refl, of 1 "replicate 8 0" "8 - b0 mod 8"] cur(1)
      by (intro good_and_then [where a = "pos f + 1 * (8 - b0 mod 8)"] good_seek) simp_all
    with True show ?thesis by (simp add: k7_def)
  next
    case False
    with that show ?thesis by (simp add: k7_def good_def)
  qed
  have g6: "good (k6 f) (nat cur)" if "faults f = []" for f
    unfolding k6_def using good_seek [OF that cur(1)] g7 by (rule good_and_then)
  have g5: "good (k5 f) (nat cur)" if "faults f = []" for f
    unfolding k5_def using good_put [OF that szt refl] g6 by (rule good_and_then)
  have g4: "good (k4 f) (nat cur)" if "faults f = []" for f
    unfolding k4_def using good_seek [OF that offs(3)] g5 by (rule good_and_then)
  have g3: "good (k3 f) (nat cur)" if "faults f = []" for f
    unfolding k3_def using good_put [OF that szt refl] g4 by (rule good_and_then)
  have g2: "good (k2 f) (nat cur)" if "faults f = []" for f
    unfolding k2_def using good_seek [OF that offs(2)] g3 by (rule good_and_then)
  have g1: "good (k1 f) (nat cur)" if "faults f = []" for f
    unfolding k1_def using good_put [OF that szt refl] g2 by (rule good_and_then)
  have gch: "good chain (nat cur)"
    unfolding chain_def using good_seek [OF f1(1) offs(1)] g1 by (rule good_and_then)
  note d = goodD [OF gch]
  have "fst chain" using gch by (simp add: good_def)
  then have "update_counters p v1 = Inr (True, v1\<lparr>fp := Some (snd chain)\<rparr>)"
    unfolding eq using cur(2) by simp
  with weq d show ?thesis
    by (intro exI [of _ "v1\<lparr>fp := Some (snd chain)\<rparr>"] exI [of _ "snd chain"]) simp
qed

subsection \<open>Handles\<close>

lemma create_not_ready: "\<not> is_ready m \<Longrightarrow> create p w m T nm = Inr (-1, m)"
  by (simp add: create_def)

lemma create_known:
  "is_ready m \<Longrightarrow> name2id m nm = Some i \<Longrightarrow> create p w m T nm = Inr (i, m)"
  by (simp add: create_def)

lemma create_fresh:
  "is_ready m \<Longrightarrow> name2id m nm = None \<Longrightarrow>
   create p w m T nm =
     (case Variable_ctor p w T (dir m) nm of
        Inl u \<Rightarrow> Inl u
      | Inr v \<Rightarrow> Inr (word_of_nat (length (variables m)),
                      m\<lparr>name2id := (name2id m)(nm \<mapsto> word_of_nat (length (variables m))),
                        variables := variables m @ [v]\<rparr>))"
  by (simp add: create_def Let_def split: sum.splits)

lemma create_registers:
  assumes "create p w m T nm = Inr (h, m')"
  shows "is_ready m' = is_ready m \<and> (is_ready m \<longrightarrow> name2id m' nm = Some h)"
proof (cases "is_ready m")
  case False
  with assms show ?thesis by (simp add: create_not_ready)
next
  case True
  show ?thesis
  proof (cases "name2id m nm")
    case (Some i)
    with True assms show ?thesis by (simp add: create_known)
  next
    case None
    with True assms show ?thesis
      by (auto simp: create_fresh split: sum.splits)
  qed
qed

text \<open>
  C8. After a registration of a name has returned a handle, registering the name again
  (with any element type) returns the same handle and leaves the registry as it is, so no
  second stream is created; and a write through the name has the same outcome, result
  and files, as the write through that handle.
\<close>

theorem create_twice_same_handle:
  assumes "create p w m T nm = Inr (h, m')"
  shows "create p w' m' T' nm = Inr (h, m') \<and> write_name p m' nm x = write_id p m' h x"
proof (cases "is_ready m")
  case False
  with assms have "h = -1" "m' = m" by (simp_all add: create_not_ready)
  with False show ?thesis
    by (simp add: create_not_ready write_name_def write_id_def)
next
  case True
  with create_registers [OF assms] have "is_ready m'" "name2id m' nm = Some h" by simp_all
  then show ?thesis
    by (simp add: create_known write_name_def)
qed

text \<open>
  C10. A negative handle, \<open>-1\<close> included, converts to a \<^verbatim>\<open>size_t\<close> of at least \<open>2^31\<close>,
  which no registry reaches whose handles fit an \<^verbatim>\<open>int\<close>: the write returns \<^verbatim>\<open>false\<close> and
  the registry, with every file, is unchanged.
\<close>

theorem write_negative_handle:
  assumes "sint i < 0" and "length (variables m) \<le> 2 ^ 31"
  shows "write_id p m i x = Inr (False, m)"
proof -
  have lo: "- (2 ^ 31) \<le> sint i"
    using sint_ge [of i] by simp
  have big: "(2::int) ^ 32 \<le> int (SIZE_MOD p)"
    using SIZE_MOD_ge [of p] by (metis of_nat_le_iff of_nat_numeral of_nat_power)
  have "sint i mod int (SIZE_MOD p) = sint i + int (SIZE_MOD p)"
    using assms(1) lo big by (intro neg_mod_wrap) auto
  then have "2 ^ 31 \<le> nat (sint i mod int (SIZE_MOD p))"
    using lo big by simp
  with assms(2) show ?thesis
    by (simp add: write_id_def Let_def)
qed

subsection \<open>Writes through the registry\<close>

lemma handle_index:
  assumes "n < 2 ^ 31"
  shows "nat (sint (word_of_nat n :: 32 word) mod int (SIZE_MOD p)) = n"
proof -
  have "n < SIZE_MOD p" using assms SIZE_MOD_ge [of p] by simp
  then have "int n < int (SIZE_MOD p)" by (simp only: of_nat_less_iff)
  then have "int n mod int (SIZE_MOD p) = int n" by simp
  then show ?thesis by (simp add: sint_of_nat_32 [OF assms])
qed

lemma write_id_True:
  assumes "write_id p m i x = Inr (True, m')"
  defines "idx \<equiv> nat (sint i mod int (SIZE_MOD p))"
  shows "\<exists>var'. Variable_write p (var_at p m i) (repr x) = Inr (True, var') \<and>
           m' = m\<lparr>variables := (variables m)[idx := var']\<rparr> \<and>
           idx < length (variables m) \<and> var_at p m' i = var' \<and> is_ready m"
proof -
  from assms(1) have r: "is_ready m" and i: "idx < length (variables m)"
    and t: "vtype (var_at p m i) = type_of x"
    by (auto simp: write_id_def Let_def idx_def var_at_def split: if_splits)
  from assms(1) r i t obtain var' where
    w: "Variable_write p (var_at p m i) (repr x) = Inr (True, var')"
    and m': "m' = m\<lparr>variables := (variables m)[idx := var']\<rparr>"
    by (auto simp: write_id_def Let_def idx_def var_at_def split: sum.splits)
  have "var_at p m' i = var'"
    using i by (simp add: m' var_at_def idx_def)
  with w m' i r show ?thesis by blast
qed

lemma write_all_True:
  assumes "write_all p m i xs = Inr (True, m')" and "stream_ok p (var_at p m i)"
  shows "stream_ok p (var_at p m' i) \<and>
         count (var_at p m' i) = count (var_at p m i) + length xs \<and>
         name (var_at p m' i) = name (var_at p m i) \<and>
         vtype (var_at p m' i) = vtype (var_at p m i)"
  using assms
proof (induction xs arbitrary: m)
  case Nil
  then show ?case by simp
next
  case (Cons x xs)
  from Cons.prems(1) obtain m1 where
    w1: "write_id p m i x = Inr (True, m1)" and rest: "write_all p m1 i xs = Inr (True, m')"
    by (auto split: sum.splits if_splits)
  from write_id_True [OF w1] obtain var' where
    vw: "Variable_write p (var_at p m i) (repr x) = Inr (True, var')"
    and at: "var_at p m1 i = var'"
    by blast
  note s = Variable_write_True [OF Cons.prems(2) vw]
  from s at have ok1: "stream_ok p (var_at p m1 i)" by simp
  from Cons.IH [OF rest ok1] s at show ?case by simp
qed

lemma Variable_write_closed: "fp v = None \<Longrightarrow> Variable_write p v e = Inr (False, v)"
  by (simp add: Variable_write_def)

lemma write_id_first:
  assumes "write_all p m i xs = Inr (True, m')" and "xs \<noteq> []"
  shows "fp (var_at p m i) \<noteq> None \<and> is_ready m"
proof -
  from assms obtain x ys where xs: "xs = x # ys" by (cases xs) auto
  with assms(1) obtain m1 where w1: "write_id p m i x = Inr (True, m1)"
    by (auto split: sum.splits if_splits)
  from write_id_True [OF w1] obtain var' where
    vw: "Variable_write p (var_at p m i) (repr x) = Inr (True, var')" and r: "is_ready m"
    by blast
  from vw have "fp (var_at p m i) \<noteq> None"
    by (cases "fp (var_at p m i)") (simp_all add: Variable_write_closed)
  with r show ?thesis by simp
qed

lemma create_fresh_var:
  assumes cr: "create p w m T nm = Inr (h, m1)" and r: "is_ready m"
    and fresh: "name2id m nm = None" and small: "length (variables m) < 2 ^ 31"
  shows "h = word_of_nat (length (variables m)) \<and>
         Variable_ctor p w T (dir m) nm = Inr (var_at p m1 h) \<and>
         variables m1 = variables m @ [var_at p m1 h] \<and> is_ready m1"
proof -
  from cr r fresh obtain v where c: "Variable_ctor p w T (dir m) nm = Inr v"
    and h: "h = word_of_nat (length (variables m))"
    and m1: "m1 = m\<lparr>name2id := (name2id m)(nm \<mapsto> word_of_nat (length (variables m))),
                    variables := variables m @ [v]\<rparr>"
    by (auto simp: create_fresh split: sum.splits)
  have "var_at p m1 h = v"
    by (simp add: var_at_def h handle_index [OF small] m1)
  with c h m1 r show ?thesis by simp
qed

lemma ctor_Inr_opened:
  assumes "Variable_ctor p w T d nm = Inr v"
  shows "\<exists>fs. openable w (d @ [separator w] @ nm @ ''.mat'') = Some fs"
proof (cases "openable w (d @ [separator w] @ nm @ ''.mat'')")
  case None
  from ctor_null_stream [OF None, of p T] assms show ?thesis by simp
next
  case (Some fs)
  then show ?thesis by blast
qed

lemma fresh_stream_after_writes:
  assumes cr: "create p w m T nm = Inr (h, m1)" and fresh: "name2id m nm = None"
    and small: "length (variables m) < 2 ^ 31" and nf: "name_fits nm"
    and wr: "write_all p m1 h xs = Inr (True, m2)" and ne: "xs \<noteq> []"
  shows "stream_ok p (var_at p m2 h) \<and> count (var_at p m2 h) = length xs \<and>
         name (var_at p m2 h) = nm \<and> vtype (var_at p m2 h) = T"
proof -
  from write_id_first [OF wr ne] have open1: "fp (var_at p m1 h) \<noteq> None" and r1: "is_ready m1"
    by simp_all
  from create_registers [OF cr] r1 have r: "is_ready m" by simp
  from create_fresh_var [OF cr r fresh small]
  have c: "Variable_ctor p w T (dir m) nm = Inr (var_at p m1 h)" by simp
  from ctor_Inr_opened [OF c] obtain fs where
    op: "openable w (dir m @ [separator w] @ nm @ ''.mat'') = Some fs" by blast
  from ctor_cases [OF op, of p T] c open1 nf
  have v: "stream_ok p (var_at p m1 h)" "count (var_at p m1 h) = 0"
    "name (var_at p m1 h) = nm" "vtype (var_at p m1 h) = T"
    by auto
  from write_all_True [OF wr v(1)] v show ?thesis by simp
qed

lemma stream_ok_fields:
  assumes "stream_ok p v"
  shows "\<exists>f. fp v = Some f \<and>
           length (content f) = payload_start (name v) + round8 (count v * sizeof p (vtype v)) \<and>
           total_length_field (content f) =
             (payload_start (name v) - 136 + round8 (count v * sizeof p (vtype v))) mod 2 ^ 32 \<and>
           element_count_field (content f) = count v mod 2 ^ 32 \<and>
           payload_length_field (name v) (content f) = (count v * sizeof p (vtype v)) mod 2 ^ 32"
  using assms by (cases "fp v") (simp_all add: stream_ok_def)

lemma create_no_fault:
  assumes r: "is_ready m" and fresh: "name2id m nm = None" and small: "length (variables m) < 2 ^ 31"
    and op: "openable w (dir m @ [separator w] @ nm @ ''.mat'') = Some []"
    and t: "miType_of p T = Some t" and nf: "name_fits nm"
  defines "h \<equiv> word_of_nat (length (variables m)) :: 32 word"
  shows "\<exists>m1 f. create p w m T nm = Inr (h, m1) \<and> is_ready m1 \<and>
           nat (sint h mod int (SIZE_MOD p)) < length (variables m1) \<and>
           stream_ok p (var_at p m1 h) \<and> fp (var_at p m1 h) = Some f \<and> faults f = [] \<and>
           count (var_at p m1 h) = 0 \<and> vtype (var_at p m1 h) = T \<and> name (var_at p m1 h) = nm"
proof -
  from ctor_no_fault [OF op t nf] obtain v f where
    c: "Variable_ctor p w T (dir m) nm = Inr v" and v: "fp v = Some f" "faults f = []"
      "stream_ok p v" "count v = 0" "vtype v = T" "name v = nm"
    by blast
  define m1 where "m1 = m\<lparr>name2id := (name2id m)(nm \<mapsto> h), variables := variables m @ [v]\<rparr>"
  have cr: "create p w m T nm = Inr (h, m1)"
    using r fresh c by (simp add: create_fresh m1_def h_def)
  have idx: "nat (sint h mod int (SIZE_MOD p)) = length (variables m)"
    unfolding h_def by (rule handle_index [OF small])
  have at: "var_at p m1 h = v"
    by (simp add: var_at_def idx m1_def)
  show ?thesis
    using cr r v idx at
    by (intro exI [of _ m1] exI [of _ f]) (simp add: m1_def)
qed

lemma write_id_no_fault:
  assumes r: "is_ready m" and idx: "nat (sint i mod int (SIZE_MOD p)) < length (variables m)"
    and ok: "stream_ok p (var_at p m i)" and fp: "fp (var_at p m i) = Some f" and nof: "faults f = []"
    and ty: "type_of x = vtype (var_at p m i)"
    and room: "payload_start (name (var_at p m i))
                 + (count (var_at p m i) + 1) * sizeof p (vtype (var_at p m i)) \<le> LONG_MAX p"
  shows "\<exists>m1 f1. write_id p m i x = Inr (True, m1) \<and> is_ready m1 \<and>
           nat (sint i mod int (SIZE_MOD p)) < length (variables m1) \<and>
           stream_ok p (var_at p m1 i) \<and> fp (var_at p m1 i) = Some f1 \<and> faults f1 = [] \<and>
           count (var_at p m1 i) = count (var_at p m i) + 1 \<and>
           vtype (var_at p m1 i) = vtype (var_at p m i) \<and>
           name (var_at p m1 i) = name (var_at p m i)"
proof -
  define v where "v = var_at p m i"
  have pos: "pos f = payload_start (name v) + count v * sizeof p (vtype v)"
    using ok fp by (simp add: stream_ok_def v_def)
  have room': "pos f + sizeof p (vtype v) \<le> LONG_MAX p"
    using room by (simp add: pos v_def)
  from Variable_write_no_fault [OF ok fp nof, of "repr x"] room' obtain v' f' where
    w: "Variable_write p v (repr x) = Inr (True, v')" and f': "fp v' = Some f'" "faults f' = []"
    by (auto simp: v_def)
  note s = Variable_write_True [OF ok w [unfolded v_def]]
  define m1 where "m1 = m\<lparr>variables := (variables m)[nat (sint i mod int (SIZE_MOD p)) := v']\<rparr>"
  have wi: "write_id p m i x = Inr (True, m1)"
    using r idx ty w by (simp add: write_id_def Let_def v_def var_at_def m1_def)
  have at: "var_at p m1 i = v'"
    using idx by (simp add: var_at_def m1_def)
  show ?thesis
    using wi r idx at s f'
    by (intro exI [of _ m1] exI [of _ f']) (simp add: m1_def)
qed

lemma write_all_no_fault:
  assumes "is_ready m" and "nat (sint i mod int (SIZE_MOD p)) < length (variables m)"
    and "stream_ok p (var_at p m i)" and "fp (var_at p m i) = Some f" and "faults f = []"
    and "\<forall>x \<in> set xs. type_of x = vtype (var_at p m i)"
    and "payload_start (name (var_at p m i))
           + (count (var_at p m i) + length xs) * sizeof p (vtype (var_at p m i)) \<le> LONG_MAX p"
  shows "\<exists>m'. write_all p m i xs = Inr (True, m')"
  using assms
proof (induction xs arbitrary: m f)
  case Nil
  then show ?case by simp
next
  case (Cons x xs)
  have ty: "type_of x = vtype (var_at p m i)" using Cons.prems(6) by simp
  have "payload_start (name (var_at p m i))
          + (count (var_at p m i) + 1) * sizeof p (vtype (var_at p m i))
        \<le> payload_start (name (var_at p m i))
          + (count (var_at p m i) + length (x # xs)) * sizeof p (vtype (var_at p m i))"
    by simp
  then have room1: "payload_start (name (var_at p m i))
          + (count (var_at p m i) + 1) * sizeof p (vtype (var_at p m i)) \<le> LONG_MAX p"
    using Cons.prems(7) by (rule order_trans)
  from write_id_no_fault [OF Cons.prems(1-5) ty room1] obtain m1 f1 where
    w1: "write_id p m i x = Inr (True, m1)" and n: "is_ready m1"
      "nat (sint i mod int (SIZE_MOD p)) < length (variables m1)"
      "stream_ok p (var_at p m1 i)" "fp (var_at p m1 i) = Some f1" "faults f1 = []"
    and e: "count (var_at p m1 i) = count (var_at p m i) + 1"
      "vtype (var_at p m1 i) = vtype (var_at p m i)"
      "name (var_at p m1 i) = name (var_at p m i)"
    by blast
  have ty': "\<forall>x \<in> set xs. type_of x = vtype (var_at p m1 i)"
    using Cons.prems(6) e by simp
  have room': "payload_start (name (var_at p m1 i))
           + (count (var_at p m1 i) + length xs) * sizeof p (vtype (var_at p m1 i)) \<le> LONG_MAX p"
    using Cons.prems(7) e by simp
  from Cons.IH [OF n ty' room'] obtain m' where "write_all p m1 i xs = Inr (True, m')" by blast
  with w1 show ?case by simp
qed

end
